theory Spec2Isabelle
  imports Complex_Main "HOL-Library.AList" "HOL-Library.Char_ord" "HOL-Library.List_Lexorder"
begin

section \<open>Data model of \<^verbatim>\<open>src/core/water_tracker.py\<close>\<close>

text \<open>
  The water log is a Python dict from ISO date strings to lists of entry dicts. An entry
  always carries \<^verbatim>\<open>amount_ml\<close> and \<^verbatim>\<open>timestamp\<close>; \<^verbatim>\<open>note\<close> is optional
  (\<^verbatim>\<open>log_water_intake\<close> does not write it). Amounts are whole millilitres, modelled
  as unbounded integers. The percentage of the goal is computed in binary floating point,
  as the interpreter computes it; the averages of the statistics are kept as exact
  rationals, rounded to two decimals. \<open>None\<close> in a string field stands for
  Python's \<^verbatim>\<open>None\<close> (and, for the note, also for an absent key: the code reads the
  note only through \<^verbatim>\<open>entry.get('note', '')\<close>).

  A dict keeps insertion order and has distinct keys: it is an association list, read with
  \<open>map_of\<close> and written with \<open>AList.update\<close> (an existing key keeps its place, a new key
  goes to the end, as in Python). Strings are ordered as Python orders them: character by
  character, by code.
\<close>

record entry =
  amount_ml :: int
  timestamp :: "string option"
  note_text :: "string option"

type_synonym daily_log = "(string \<times> entry list) list"

datatype py_error =
    FileNotFoundError
  | JSONDecodeError
  | KeyError
  | ValueError
  | TypeError
  | OverflowError
  | IllegalMonthError
  | ZeroDivisionError
  | CsvError
  | OSError

text \<open>\<^verbatim>\<open>data.get(k, [])\<close>.\<close>

definition get_or_empty :: "daily_log \<Rightarrow> string \<Rightarrow> entry list" where
  "get_or_empty data k = (case map_of data k of None \<Rightarrow> [] | Some es \<Rightarrow> es)"

text \<open>\<^verbatim>\<open>sum(entry['amount_ml'] for entry in entries)\<close>.\<close>

definition sum_amounts :: "entry list \<Rightarrow> int" where
  "sum_amounts es = sum_list (map amount_ml es)"

text \<open>Rounding an exact value to \<open>ndigits\<close> decimals: the nearest multiple of
  \<open>10 ^ -ndigits\<close>, a tie going to the even one.\<close>

definition round_half_even :: "rat \<Rightarrow> int" where
  "round_half_even x =
     (let f = \<lfloor>x\<rfloor>; d = x - of_int f
      in if d < 1 / 2 then f else if 1 / 2 < d then f + 1 else if even f then f else f + 1)"

definition py_round :: "rat \<Rightarrow> nat \<Rightarrow> rat" where
  "py_round x ndigits = of_int (round_half_even (x * 10 ^ ndigits)) / 10 ^ ndigits"

text \<open>\<^verbatim>\<open>max(xs, key=lambda x: x[1])\<close> and \<^verbatim>\<open>min(xs, key=lambda x: x[1])\<close> on a non-empty
  list of pairs: the first element whose second component is the largest (smallest).\<close>

fun max_by_snd :: "('a \<times> int) \<Rightarrow> ('a \<times> int) list \<Rightarrow> ('a \<times> int)" where
  "max_by_snd b [] = b"
| "max_by_snd b (x # xs) = max_by_snd (if snd b < snd x then x else b) xs"

fun min_by_snd :: "('a \<times> int) \<Rightarrow> ('a \<times> int) list \<Rightarrow> ('a \<times> int)" where
  "min_by_snd b [] = b"
| "min_by_snd b (x # xs) = min_by_snd (if snd x < snd b then x else b) xs"

text \<open>\<^verbatim>\<open>min(data.keys())\<close> and \<^verbatim>\<open>max(data.keys())\<close> on a non-empty dict.\<close>

fun py_min :: "string list \<Rightarrow> string" where
  "py_min [] = []"
| "py_min (k # ks) = fold (\<lambda>x m. if x < m then x else m) ks k"

fun py_max :: "string list \<Rightarrow> string" where
  "py_max [] = []"
| "py_max (k # ks) = fold (\<lambda>x m. if m < x then x else m) ks k"

section \<open>The durable document and the files\<close>

text \<open>
  The content of \<^verbatim>\<open>water_intake_log.json\<close> is either text that \<^verbatim>\<open>json.load\<close> reads
  back as a log, or text that it rejects. The other files (the CSV files) hold text and are
  addressed by path; a CSV path is taken to differ from the path of the log. \<open>today\<close> is
  \<^verbatim>\<open>datetime.date.today()\<close> as a proleptic Gregorian ordinal (\<^verbatim>\<open>date.toordinal()\<close>), day 1
  being 0001-01-01.
\<close>

datatype document = Document daily_log | Malformed string

record world =
  log_file :: "document option"
  files :: "string \<Rightarrow> string option"
  today :: int

text \<open>\<^verbatim>\<open>load_water_log\<close>: no file gives the empty dict; otherwise \<^verbatim>\<open>json.load\<close>, whose
  failure is not caught here.\<close>

definition load_water_log :: "world \<Rightarrow> py_error + daily_log" where
  "load_water_log w =
     (case log_file w of
        None \<Rightarrow> Inr []
      | Some (Malformed s) \<Rightarrow> Inl JSONDecodeError
      | Some (Document data) \<Rightarrow> Inr data)"

text \<open>\<^verbatim>\<open>save_water_log\<close> has two steps. \<^verbatim>\<open>open(WATER_LOG_FILE, 'w')\<close> creates the file
  or empties it, and empty text is not a JSON document; \<^verbatim>\<open>json.dump\<close> and the end of the
  \<^verbatim>\<open>with\<close> block then leave the dump of \<open>data\<close> in the file. There is no other file and no
  rename. \<open>save_water_log_states\<close> lists the states of the file system that are certain to
  occur, in order; the last one is what the caller finds when \<^verbatim>\<open>save_water_log\<close> returns.\<close>

definition open_for_writing :: "world \<Rightarrow> world" where
  "open_for_writing w = w\<lparr>log_file := Some (Malformed [])\<rparr>"

definition json_dump :: "world \<Rightarrow> daily_log \<Rightarrow> world" where
  "json_dump w data = w\<lparr>log_file := Some (Document data)\<rparr>"

definition save_water_log_states :: "world \<Rightarrow> daily_log \<Rightarrow> world list" where
  "save_water_log_states w data = [open_for_writing w, json_dump (open_for_writing w) data]"

definition save_water_log :: "world \<Rightarrow> daily_log \<Rightarrow> world" where
  "save_water_log w data = last (save_water_log_states w data)"

text \<open>Every query starts with \<^verbatim>\<open>data = load_water_log()\<close> and goes on only when that
  returned.\<close>

definition with_log :: "world \<Rightarrow> (daily_log \<Rightarrow> py_error + 'a) \<Rightarrow> py_error + 'a" where
  "with_log w f = (case load_water_log w of Inl e \<Rightarrow> Inl e | Inr data \<Rightarrow> f data)"

section \<open>All-time statistics\<close>

text \<open>The result dict of \<^verbatim>\<open>get_all_time_statistics\<close>. Both early returns build a dict
  without the keys \<^verbatim>\<open>first_logged_date\<close> and \<^verbatim>\<open>last_logged_date\<close>: \<open>None\<close> in these
  two fields stands for the absent key.\<close>

record all_time_stats =
  total_days_logged :: nat
  total_intake :: int
  average_per_day :: rat
  best_day :: "(string \<times> int) option"
  total_entries :: nat
  first_logged_date :: "string option"
  last_logged_date :: "string option"

definition no_all_time_stats :: all_time_stats where
  "no_all_time_stats =
     \<lparr>total_days_logged = 0, total_intake = 0, average_per_day = 0, best_day = None,
      total_entries = 0, first_logged_date = None, last_logged_date = None\<rparr>"

text \<open>The loop over \<^verbatim>\<open>data.items()\<close>: the days with a positive total, in dict order, and
  the number of entries.\<close>

fun all_totals_loop :: "daily_log \<Rightarrow> (string \<times> int) list \<Rightarrow> nat \<Rightarrow> (string \<times> int) list \<times> nat" where
  "all_totals_loop [] all_totals n = (all_totals, n)"
| "all_totals_loop ((date_str, entries) # rest) all_totals n =
     (let daily_total = sum_amounts entries
      in all_totals_loop rest
           (if 0 < daily_total then all_totals @ [(date_str, daily_total)] else all_totals)
           (n + length entries))"

definition all_time_statistics_of :: "daily_log \<Rightarrow> all_time_stats" where
  "all_time_statistics_of data =
     (if data = [] then no_all_time_stats
      else
        (case all_totals_loop data [] 0 of
           ([], n) \<Rightarrow> no_all_time_stats
         | (t # ts, n) \<Rightarrow>
             \<lparr>total_days_logged = length (t # ts),
              total_intake = sum_list (map snd (t # ts)),
              average_per_day =
                py_round (of_int (sum_list (map snd (t # ts))) / of_nat (length (t # ts))) 2,
              best_day = Some (max_by_snd t ts),
              total_entries = n,
              first_logged_date = Some (py_min (map fst data)),
              last_logged_date = Some (py_max (map fst data))\<rparr>))"

definition get_all_time_statistics :: "world \<Rightarrow> py_error + all_time_stats" where
  "get_all_time_statistics w = with_log w (\<lambda>data. Inr (all_time_statistics_of data))"

section \<open>Longest streak\<close>

record streak =
  length_days :: nat
  start_date :: "string option"
  end_date :: "string option"

text \<open>The five local variables of the loop in \<^verbatim>\<open>get_longest_streak\<close>.\<close>

record streak_scan =
  max_streak :: nat
  current_streak :: nat
  streak_start :: "string option"
  max_streak_start :: "string option"
  max_streak_end :: "string option"

definition streak_step :: "daily_log \<Rightarrow> int \<Rightarrow> string \<Rightarrow> streak_scan \<Rightarrow> streak_scan" where
  "streak_step data daily_goal_ml date_str s =
     (if daily_goal_ml \<le> sum_amounts (get_or_empty data date_str) then
        (let s1 = (if current_streak s = 0 then s\<lparr>streak_start := Some date_str\<rparr> else s);
             s2 = s1\<lparr>current_streak := current_streak s1 + 1\<rparr>
         in if max_streak s2 < current_streak s2
            then s2\<lparr>max_streak := current_streak s2,
                    max_streak_start := streak_start s2,
                    max_streak_end := Some date_str\<rparr>
            else s2)
      else s\<lparr>current_streak := 0, streak_start := None\<rparr>)"

definition longest_streak_of :: "daily_log \<Rightarrow> int \<Rightarrow> streak" where
  "longest_streak_of data daily_goal_ml =
     (if data = [] then \<lparr>length_days = 0, start_date = None, end_date = None\<rparr>
      else
        (let s = fold (streak_step data daily_goal_ml) (sort (map fst data))
                   \<lparr>max_streak = 0, current_streak = 0, streak_start = None,
                    max_streak_start = None, max_streak_end = None\<rparr>
         in \<lparr>length_days = max_streak s, start_date = max_streak_start s,
             end_date = max_streak_end s\<rparr>))"

definition get_longest_streak :: "world \<Rightarrow> int \<Rightarrow> py_error + streak" where
  "get_longest_streak w daily_goal_ml =
     with_log w (\<lambda>data. Inr (longest_streak_of data daily_goal_ml))"

section \<open>Calendar dates\<close>

text \<open>
  \<^verbatim>\<open>datetime.date\<close> holds the days 0001-01-01 to 9999-12-31, ordinals 1 to 3652059.
  \<^verbatim>\<open>today - datetime.timedelta(days=i)\<close> raises \<^verbatim>\<open>OverflowError\<close> when the result leaves
  that range.
\<close>

definition max_ordinal :: int where
  "max_ordinal = 3652059"

definition date_sub :: "int \<Rightarrow> int \<Rightarrow> py_error + int" where
  "date_sub d i = (if 1 \<le> d - i \<and> d - i \<le> max_ordinal then Inr (d - i) else Inl OverflowError)"

text \<open>\<^verbatim>\<open>calendar.isleap\<close> and the second component of \<^verbatim>\<open>calendar.monthrange\<close>.\<close>

definition isleap :: "int \<Rightarrow> bool" where
  "isleap year = (year mod 4 = 0 \<and> (year mod 100 \<noteq> 0 \<or> year mod 400 = 0))"

definition mdays :: "int list" where
  "mdays = [0, 31, 28, 31, 30, 31, 30, 31, 31, 30, 31, 30, 31]"

definition monthrange :: "int \<Rightarrow> int \<Rightarrow> py_error + int" where
  "monthrange year month =
     (if \<not> (1 \<le> month \<and> month \<le> 12) then Inl IllegalMonthError
      else Inr (mdays ! nat month + (if month = 2 \<and> isleap year then 1 else 0)))"

text \<open>\<^verbatim>\<open>_ord2ymd\<close> of \<^verbatim>\<open>datetime.py\<close>, for an ordinal in range.\<close>

definition days_before_month :: "int list" where
  "days_before_month = [0, 0, 31, 59, 90, 120, 151, 181, 212, 243, 273, 304, 334]"

definition ord2ymd :: "int \<Rightarrow> int \<times> int \<times> int" where
  "ord2ymd ordinal =
     (let n0 = ordinal - 1;
          n400 = n0 div 146097; na = n0 mod 146097;
          n100 = na div 36524; nb = na mod 36524;
          n4 = nb div 1461; nc = nb mod 1461;
          n1 = nc div 365; n = nc mod 365;
          year = n400 * 400 + 1 + n100 * 100 + n4 * 4 + n1
      in if n1 = 4 \<or> n100 = 4 then (year - 1, 12, 31)
         else
           (let leapyear = (n1 = 3 \<and> (n4 \<noteq> 24 \<or> n100 = 3));
                month = (n + 50) div 32;
                preceding = days_before_month ! nat month + (if 2 < month \<and> leapyear then 1 else 0)
            in if n < preceding
               then (let month' = month - 1;
                         preceding' = preceding
                           - (mdays ! nat month' + (if month' = 2 \<and> leapyear then 1 else 0))
                     in (year, month', n - preceding' + 1))
               else (year, month, n - preceding + 1)))"

text \<open>Decimal text of a number: \<^verbatim>\<open>str(n)\<close>, and the zero padding of \<^verbatim>\<open>%02d\<close>,
  \<^verbatim>\<open>%04d\<close> and \<^verbatim>\<open>{n:02d}\<close>, where the sign of a negative number counts in the
  width.\<close>

definition digit_char :: "nat \<Rightarrow> char" where
  "digit_char d = ''0123456789'' ! d"

fun str_nat :: "nat \<Rightarrow> string" where
  "str_nat n = (if n < 10 then [digit_char n] else str_nat (n div 10) @ [digit_char (n mod 10)])"

declare str_nat.simps [simp del]

definition str_int :: "int \<Rightarrow> string" where
  "str_int i = (if i < 0 then CHR ''-'' # str_nat (nat (- i)) else str_nat (nat i))"

definition zero_pad :: "nat \<Rightarrow> int \<Rightarrow> string" where
  "zero_pad width i =
     (if i < 0 then CHR ''-'' # replicate (width - 1 - length (str_nat (nat (- i)))) CHR ''0''
                      @ str_nat (nat (- i))
      else replicate (width - length (str_nat (nat i))) CHR ''0'' @ str_nat (nat i))"

text \<open>\<^verbatim>\<open>date.isoformat()\<close>: \<^verbatim>\<open>"%04d-%02d-%02d" % (year, month, day)\<close>.\<close>

definition isoformat :: "int \<Rightarrow> string" where
  "isoformat ordinal =
     (case ord2ymd ordinal of
        (y, m, d) \<Rightarrow> zero_pad 4 y @ ''-'' @ zero_pad 2 m @ ''-'' @ zero_pad 2 d)"

section \<open>Totals of a day and of the trailing days\<close>

text \<open>\<^verbatim>\<open>get_today_total\<close>.\<close>

definition get_today_total :: "world \<Rightarrow> py_error + int" where
  "get_today_total w =
     with_log w (\<lambda>data.
       (case map_of data (isoformat (today w)) of
          Some entries \<Rightarrow> Inr (sum_amounts entries)
        | None \<Rightarrow> Inr 0))"

text \<open>\<^verbatim>\<open>get_total_for_date\<close>.\<close>

definition get_total_for_date :: "world \<Rightarrow> string \<Rightarrow> py_error + int" where
  "get_total_for_date w date_str =
     with_log w (\<lambda>data.
       (case map_of data date_str of
          Some entries \<Rightarrow> Inr (sum_amounts entries)
        | None \<Rightarrow> Inr 0))"

text \<open>\<^verbatim>\<open>get_last_n_days_totals\<close>. The first comprehension walks \<^verbatim>\<open>range(n-1, -1, -1)\<close>
  and stops at the first date that cannot be represented.\<close>

fun days_back :: "int \<Rightarrow> int list \<Rightarrow> py_error + string list" where
  "days_back t [] = Inr []"
| "days_back t (i # is) =
     (case date_sub t i of
        Inl e \<Rightarrow> Inl e
      | Inr d \<Rightarrow> (case days_back t is of Inl e \<Rightarrow> Inl e | Inr ds \<Rightarrow> Inr (isoformat d # ds)))"

definition get_last_n_days_totals :: "world \<Rightarrow> int \<Rightarrow> py_error + (string \<times> int) list" where
  "get_last_n_days_totals w n =
     with_log w (\<lambda>data.
       (case days_back (today w) (rev [0..n - 1]) of
          Inl e \<Rightarrow> Inl e
        | Inr days \<Rightarrow> Inr (map (\<lambda>d. (d, sum_amounts (get_or_empty data d))) days)))"

section \<open>Current streak\<close>

text \<open>The loop of \<^verbatim>\<open>get_streak_count\<close> over \<^verbatim>\<open>range(365)\<close>, with its \<^verbatim>\<open>break\<close>.\<close>

fun streak_loop :: "daily_log \<Rightarrow> int \<Rightarrow> int \<Rightarrow> int list \<Rightarrow> nat \<Rightarrow> py_error + nat" where
  "streak_loop data daily_goal_ml t [] streak = Inr streak"
| "streak_loop data daily_goal_ml t (i # is) streak =
     (case date_sub t i of
        Inl e \<Rightarrow> Inl e
      | Inr d \<Rightarrow>
          (if daily_goal_ml \<le> sum_amounts (get_or_empty data (isoformat d))
           then streak_loop data daily_goal_ml t is (streak + 1)
           else Inr streak))"

definition get_streak_count :: "world \<Rightarrow> int \<Rightarrow> py_error + nat" where
  "get_streak_count w daily_goal_ml =
     with_log w (\<lambda>data. streak_loop data daily_goal_ml (today w) [0..364] 0)"

section \<open>Binary floating point\<close>

text \<open>
  The quotient of two integers, the product of a float and a number, and \<^verbatim>\<open>round\<close> of a
  float are computed by the interpreter in IEEE 754 binary64, each result being the float
  nearest to the exact one, a tie going to the even significand. A float is modelled by
  its exact value, or it is an infinity; no other float arises from integers by these
  operations, and the sign of a zero is not kept.

  \<open>bit_length\<close> is \<^verbatim>\<open>int.bit_length\<close>, and \<open>floor_log2 x\<close> is the exponent \<open>e\<close> with
  \<open>2 ^ e \<le> x < 2 ^ (e + 1)\<close>, for a positive \<open>x\<close>. \<open>to_double\<close> rounds an exact value to
  53 significant bits, or to a multiple of \<open>2 ^ -1074\<close> below the normal range; a result of
  \<open>2 ^ 1024\<close> or more is an infinity.
\<close>

datatype pyfloat = Finite rat | PosInf | NegInf

fun bit_length :: "nat \<Rightarrow> nat" where
  "bit_length n = (if n = 0 then 0 else Suc (bit_length (n div 2)))"

declare bit_length.simps [simp del]

definition floor_log2 :: "rat \<Rightarrow> int" where
  "floor_log2 x =
     (case quotient_of x of
        (a, b) \<Rightarrow>
          (let d = int (bit_length (nat a)) - int (bit_length (nat b))
           in if 2 powi d \<le> x then d else d - 1))"

definition to_double :: "rat \<Rightarrow> pyfloat" where
  "to_double x =
     (if x = 0 then Finite 0
      else
        (let p = max (floor_log2 \<bar>x\<bar>) (- 1022) - 52;
             y = of_int (round_half_even (\<bar>x\<bar> / 2 powi p)) * 2 powi p
         in if 2 powi 1024 \<le> y then (if 0 < x then PosInf else NegInf)
            else Finite (if 0 < x then y else - y)))"

text \<open>\<^verbatim>\<open>a / b\<close> on integers: the float nearest to the quotient; a quotient too large for
  a float raises \<^verbatim>\<open>OverflowError\<close>.\<close>

definition py_truediv :: "int \<Rightarrow> int \<Rightarrow> py_error + pyfloat" where
  "py_truediv a b =
     (if b = 0 then Inl ZeroDivisionError
      else (case to_double (of_int a / of_int b) of
              Finite q \<Rightarrow> Inr (Finite q)
            | _ \<Rightarrow> Inl OverflowError))"

text \<open>\<^verbatim>\<open>x * c\<close> for a float \<open>x\<close> and a positive number \<open>c\<close> that a float holds exactly,
  and \<^verbatim>\<open>round(x, ndigits)\<close> for a float \<open>x\<close>: the exact value of \<open>x\<close> is rounded to
  \<open>ndigits\<close> decimals, and the result is the float nearest to that; an infinity stays.\<close>

definition float_mul :: "pyfloat \<Rightarrow> rat \<Rightarrow> pyfloat" where
  "float_mul x c = (case x of Finite q \<Rightarrow> to_double (q * c) | _ \<Rightarrow> x)"

definition float_round :: "pyfloat \<Rightarrow> nat \<Rightarrow> pyfloat" where
  "float_round x ndigits = (case x of Finite q \<Rightarrow> to_double (py_round q ndigits) | _ \<Rightarrow> x)"

section \<open>Percentage of the goal\<close>

text \<open>\<^verbatim>\<open>get_hydration_percentage\<close>: the total is read first, the conditional expression
  then looks at the goal before it divides. The function has no parameter for a date.\<close>

definition get_hydration_percentage :: "world \<Rightarrow> int \<Rightarrow> py_error + pyfloat" where
  "get_hydration_percentage w daily_goal_ml =
     (case get_today_total w of
        Inl e \<Rightarrow> Inl e
      | Inr today_total \<Rightarrow>
          (if 0 < daily_goal_ml then
             (case py_truediv today_total daily_goal_ml of
                Inl e \<Rightarrow> Inl e
              | Inr q \<Rightarrow> Inr (float_round (float_mul q 100) 1))
           else Inr (Finite 0)))"

section \<open>Monthly statistics\<close>

text \<open>\<^verbatim>\<open>get_monthly_data\<close>: one assignment \<^verbatim>\<open>month_data[date_str] = total\<close> for each day
  of \<^verbatim>\<open>range(1, num_days + 1)\<close>, the key being \<^verbatim>\<open>f"{year}-{month:02d}-{day:02d}"\<close>.\<close>

definition month_key :: "int \<Rightarrow> int \<Rightarrow> int \<Rightarrow> string" where
  "month_key year month day = str_int year @ ''-'' @ zero_pad 2 month @ ''-'' @ zero_pad 2 day"

definition month_data_loop :: "daily_log \<Rightarrow> int \<Rightarrow> int \<Rightarrow> int list \<Rightarrow> (string \<times> int) list" where
  "month_data_loop data year month days =
     fold (\<lambda>day month_data.
             AList.update (month_key year month day)
               (sum_amounts (get_or_empty data (month_key year month day))) month_data)
          days []"

definition get_monthly_data :: "world \<Rightarrow> int \<Rightarrow> int \<Rightarrow> py_error + (string \<times> int) list" where
  "get_monthly_data w year month =
     with_log w (\<lambda>data.
       (case monthrange year month of
          Inl e \<Rightarrow> Inl e
        | Inr num_days \<Rightarrow> Inr (month_data_loop data year month [1..num_days])))"

text \<open>The result dict of \<^verbatim>\<open>get_monthly_statistics\<close>; the early return has no key
  \<^verbatim>\<open>days_in_month\<close>.\<close>

record monthly_stats =
  month_total :: int
  month_average :: rat
  month_best_day :: "(string \<times> int) option"
  month_worst_day :: "(string \<times> int) option"
  month_days_logged :: nat
  days_in_month :: "nat option"

definition monthly_statistics_of :: "(string \<times> int) list \<Rightarrow> monthly_stats" where
  "monthly_statistics_of month_data =
     (let totals = filter (\<lambda>amount. 0 < amount) (map snd month_data)
      in if totals = [] then
           \<lparr>month_total = 0, month_average = 0, month_best_day = None, month_worst_day = None,
            month_days_logged = 0, days_in_month = None\<rparr>
         else
           \<lparr>month_total = sum_list totals,
            month_average = py_round (of_int (sum_list totals) / of_nat (length totals)) 2,
            month_best_day =
              (case month_data of [] \<Rightarrow> None | x # xs \<Rightarrow> Some (max_by_snd x xs)),
            month_worst_day =
              (case filter (\<lambda>item. 0 < snd item) month_data of
                 [] \<Rightarrow> None | x # xs \<Rightarrow> Some (min_by_snd x xs)),
            month_days_logged = length totals,
            days_in_month = Some (length month_data)\<rparr>)"

definition get_monthly_statistics :: "world \<Rightarrow> int \<Rightarrow> int \<Rightarrow> py_error + monthly_stats" where
  "get_monthly_statistics w year month =
     (case get_monthly_data w year month of
        Inl e \<Rightarrow> Inl e
      | Inr month_data \<Rightarrow> Inr (monthly_statistics_of month_data))"

section \<open>CSV text\<close>

text \<open>
  The \<^verbatim>\<open>csv\<close> module with its default dialect: delimiter comma, quote character
  \<^verbatim>\<open>"\<close> doubled inside a quoted field, minimal quoting, line terminator CR LF, not strict.
\<close>

definition CR :: char where "CR = CHR 0x0D"
definition LF :: char where "LF = CHR 0x0A"
definition quotechar :: char where "quotechar = CHR 0x22"
definition delimiter :: char where "delimiter = CHR '',''"

subsection \<open>Writing\<close>

text \<open>\<^verbatim>\<open>writer.writerow\<close>: a field is quoted when it holds the delimiter, the quote
  character or a character of the line terminator; a row of one empty field is written as
  two quote characters.\<close>

definition needs_quotes :: "string \<Rightarrow> bool" where
  "needs_quotes s = (\<exists>c \<in> set s. c = delimiter \<or> c = quotechar \<or> c = CR \<or> c = LF)"

definition quote_field :: "string \<Rightarrow> string" where
  "quote_field s =
     (if needs_quotes s
      then quotechar # concat (map (\<lambda>c. if c = quotechar then [c, c] else [c]) s) @ [quotechar]
      else s)"

fun join_fields :: "string list \<Rightarrow> string" where
  "join_fields [] = []"
| "join_fields [f] = f"
| "join_fields (f # g # fs) = f @ delimiter # join_fields (g # fs)"

definition writerow :: "string list \<Rightarrow> string" where
  "writerow row =
     (if row = [[]] then [quotechar, quotechar] else join_fields (map quote_field row)) @ [CR, LF]"

text \<open>What the writer makes of a value that may be \<^verbatim>\<open>None\<close>: the empty field.\<close>

definition opt_text :: "string option \<Rightarrow> string" where
  "opt_text v = (case v of None \<Rightarrow> [] | Some s \<Rightarrow> s)"

subsection \<open>Reading\<close>

text \<open>A file opened for reading in text mode without \<^verbatim>\<open>newline=''\<close> has universal
  newlines: CR LF and a lone CR both reach the program as LF. Iterating over the file gives
  its lines, each with its LF.\<close>

fun universal_newlines :: "string \<Rightarrow> string" where
  "universal_newlines [] = []"
| "universal_newlines [c] = [if c = CR then LF else c]"
| "universal_newlines (c # d # cs) =
     (if c = CR \<and> d = LF then LF # universal_newlines cs
      else if c = CR then LF # universal_newlines (d # cs)
      else c # universal_newlines (d # cs))"

fun split_lines :: "string \<Rightarrow> string \<Rightarrow> string list" where
  "split_lines cur [] = (if cur = [] then [] else [cur])"
| "split_lines cur (c # cs) =
     (if c = LF then (cur @ [c]) # split_lines [] cs else split_lines (cur @ [c]) cs)"

text \<open>The reader is the state machine of the \<^verbatim>\<open>csv\<close> module (the states for an escape
  character are left out: the dialect has none). A field longer than
  \<^verbatim>\<open>csv.field_size_limit()\<close> is an error.\<close>

datatype parse_state =
  START_RECORD | START_FIELD | IN_FIELD | IN_QUOTED_FIELD | QUOTE_IN_QUOTED_FIELD | EAT_CRNL

record csv_parser =
  p_state :: parse_state
  p_field :: string
  p_fields :: "string list"

definition field_limit :: nat where
  "field_limit = 131072"

definition parse_reset :: csv_parser where
  "parse_reset = \<lparr>p_state = START_RECORD, p_field = [], p_fields = []\<rparr>"

definition parse_add_char :: "csv_parser \<Rightarrow> char \<Rightarrow> parse_state \<Rightarrow> py_error + csv_parser" where
  "parse_add_char p c st =
     (if field_limit \<le> length (p_field p) then Inl CsvError
      else Inr (p\<lparr>p_field := p_field p @ [c], p_state := st\<rparr>))"

definition parse_save_field :: "csv_parser \<Rightarrow> parse_state \<Rightarrow> csv_parser" where
  "parse_save_field p st = p\<lparr>p_fields := p_fields p @ [p_field p], p_field := [], p_state := st\<rparr>"

definition start_field :: "csv_parser \<Rightarrow> char \<Rightarrow> py_error + csv_parser" where
  "start_field p c =
     (if c = LF \<or> c = CR then Inr (parse_save_field p EAT_CRNL)
      else if c = quotechar then Inr (p\<lparr>p_state := IN_QUOTED_FIELD\<rparr>)
      else if c = delimiter then Inr (parse_save_field p START_FIELD)
      else parse_add_char p c IN_FIELD)"

definition parse_process_char :: "csv_parser \<Rightarrow> char \<Rightarrow> py_error + csv_parser" where
  "parse_process_char p c =
     (case p_state p of
        START_RECORD \<Rightarrow>
          if c = LF \<or> c = CR then Inr (p\<lparr>p_state := EAT_CRNL\<rparr>) else start_field p c
      | START_FIELD \<Rightarrow> start_field p c
      | IN_FIELD \<Rightarrow>
          if c = LF \<or> c = CR then Inr (parse_save_field p EAT_CRNL)
          else if c = delimiter then Inr (parse_save_field p START_FIELD)
          else parse_add_char p c IN_FIELD
      | IN_QUOTED_FIELD \<Rightarrow>
          if c = quotechar then Inr (p\<lparr>p_state := QUOTE_IN_QUOTED_FIELD\<rparr>)
          else parse_add_char p c IN_QUOTED_FIELD
      | QUOTE_IN_QUOTED_FIELD \<Rightarrow>
          if c = quotechar then parse_add_char p c IN_QUOTED_FIELD
          else if c = delimiter then Inr (parse_save_field p START_FIELD)
          else if c = LF \<or> c = CR then Inr (parse_save_field p EAT_CRNL)
          else parse_add_char p c IN_FIELD
      | EAT_CRNL \<Rightarrow> if c = LF \<or> c = CR then Inr p else Inl CsvError)"

text \<open>The end of a line of input.\<close>

definition parse_process_eol :: "csv_parser \<Rightarrow> csv_parser" where
  "parse_process_eol p =
     (case p_state p of
        START_RECORD \<Rightarrow> p
      | START_FIELD \<Rightarrow> parse_save_field p START_RECORD
      | IN_FIELD \<Rightarrow> parse_save_field p START_RECORD
      | IN_QUOTED_FIELD \<Rightarrow> p
      | QUOTE_IN_QUOTED_FIELD \<Rightarrow> parse_save_field p START_RECORD
      | EAT_CRNL \<Rightarrow> p\<lparr>p_state := START_RECORD\<rparr>)"

fun parse_process_line :: "csv_parser \<Rightarrow> string \<Rightarrow> py_error + csv_parser" where
  "parse_process_line p [] = Inr (parse_process_eol p)"
| "parse_process_line p (c # cs) =
     (case parse_process_char p c of
        Inl e \<Rightarrow> Inl e
      | Inr p' \<Rightarrow> parse_process_line p' cs)"

text \<open>All the records of the reader: a record ends when a line leaves the machine in
  \<open>START_RECORD\<close>; when the lines run out inside a quoted field or with a field begun, that
  field ends the last record.\<close>

fun csv_records :: "string list \<Rightarrow> csv_parser \<Rightarrow> py_error + string list list" where
  "csv_records [] p =
     (if p_field p \<noteq> [] \<or> p_state p = IN_QUOTED_FIELD then Inr [p_fields p @ [p_field p]] else Inr [])"
| "csv_records (l # ls) p =
     (case parse_process_line p l of
        Inl e \<Rightarrow> Inl e
      | Inr p' \<Rightarrow>
          (if p_state p' = START_RECORD
           then (case csv_records ls parse_reset of
                   Inl e \<Rightarrow> Inl e
                 | Inr rs \<Rightarrow> Inr (p_fields p' # rs))
           else csv_records ls p'))"

text \<open>\<^verbatim>\<open>csv.DictReader\<close>: the first record gives the field names; an empty record is
  skipped; a row shorter than the field names has \<^verbatim>\<open>None\<close> for the missing ones. The
  fields beyond the field names go under the key \<^verbatim>\<open>None\<close>, which no lookup of the
  program reads, and are left out.\<close>

definition dict_row :: "string list \<Rightarrow> string list \<Rightarrow> (string \<times> string option) list" where
  "dict_row fieldnames row =
     fold (\<lambda>kv d. AList.update (fst kv) (snd kv) d)
       (zip fieldnames (map Some row @ replicate (length fieldnames - length row) None)) []"

definition dict_reader :: "string list list \<Rightarrow> (string \<times> string option) list list" where
  "dict_reader records =
     (case records of
        [] \<Rightarrow> []
      | fieldnames # rest \<Rightarrow> map (dict_row fieldnames) (filter (\<lambda>row. row \<noteq> []) rest))"

section \<open>Export and import\<close>

text \<open>\<^verbatim>\<open>export_data_to_csv\<close>. The rows follow \<^verbatim>\<open>sorted(data.keys())\<close>; the lookup
  \<^verbatim>\<open>data[date_str]\<close> of a key of the dict cannot fail. The file is opened with
  \<^verbatim>\<open>newline=''\<close>: the text is stored as the writer gives it. A failing write is not
  modelled.\<close>

definition csv_header :: "string list" where
  "csv_header = [''Date'', ''Timestamp'', ''Amount (ml)'', ''Note'']"

definition export_rows :: "daily_log \<Rightarrow> string list list" where
  "export_rows data =
     concat (map (\<lambda>date_str.
                    map (\<lambda>entry. [date_str, opt_text (timestamp entry),
                                   str_int (amount_ml entry), opt_text (note_text entry)])
                        (get_or_empty data date_str))
                 (sort (map fst data)))"

definition export_text :: "daily_log \<Rightarrow> string" where
  "export_text data = concat (map writerow (csv_header # export_rows data))"

definition export_data_to_csv :: "world \<Rightarrow> string \<Rightarrow> world \<times> bool" where
  "export_data_to_csv w output_file =
     (case load_water_log w of
        Inl e \<Rightarrow> (w, False)
      | Inr data \<Rightarrow> (w\<lparr>files := (files w)(output_file \<mapsto> export_text data)\<rparr>, True))"

text \<open>The import reads numbers with \<^verbatim>\<open>float\<close>, which belongs to the interpreter and not to
  the program: it is the parameter \<open>float_of\<close> of the model, \<open>None\<close> standing for the
  \<^verbatim>\<open>ValueError\<close> that \<^verbatim>\<open>float\<close> raises on a text it does not read as a number. What is
  proved of the import holds for every \<open>float_of\<close>, whatever the texts it accepts. The
  amounts of the model are whole numbers, and so are the values of \<open>float_of\<close>.

  The dict that the loop of the import fills can have the key \<^verbatim>\<open>None\<close>, the date of a row
  shorter than the header: its keys are optional strings. \<^verbatim>\<open>json.dump\<close> writes the key
  \<^verbatim>\<open>None\<close> as \<^verbatim>\<open>null\<close>, and what \<^verbatim>\<open>json.load\<close> reads back from the dump has, for a key
  written twice, the place of the first and the value of the last.\<close>

type_synonym import_log = "(string option \<times> entry list) list"

definition json_key :: "string option \<Rightarrow> string" where
  "json_key k = (case k of None \<Rightarrow> ''null'' | Some s \<Rightarrow> s)"

definition json_object :: "import_log \<Rightarrow> daily_log" where
  "json_object data = fold (\<lambda>kv d. AList.update (json_key (fst kv)) (snd kv) d) data []"

text \<open>The body of the loop of \<^verbatim>\<open>import_data_from_csv\<close>.\<close>

definition import_row ::
  "(string \<Rightarrow> int option) \<Rightarrow> (string \<times> string option) list \<Rightarrow> import_log \<Rightarrow> py_error + import_log"
where
  "import_row float_of row data =
     (case map_of row ''Date'' of
        None \<Rightarrow> Inl KeyError
      | Some date_str \<Rightarrow>
          (let data1 = (if map_of data date_str = None then AList.update date_str [] data
                        else data)
           in case map_of row ''Amount (ml)'' of
                None \<Rightarrow> Inl KeyError
              | Some None \<Rightarrow> Inl TypeError
              | Some (Some amount) \<Rightarrow>
                  (case float_of amount of
                     None \<Rightarrow> Inl ValueError
                   | Some a \<Rightarrow>
                       (case map_of row ''Timestamp'' of
                          None \<Rightarrow> Inl KeyError
                        | Some ts \<Rightarrow>
                            Inr (AList.update date_str
                                   ((case map_of data1 date_str of None \<Rightarrow> [] | Some es \<Rightarrow> es) @
                                      [\<lparr>amount_ml = a, timestamp = ts,
                                        note_text = (case map_of row ''Note'' of
                                                       None \<Rightarrow> Some []
                                                     | Some v \<Rightarrow> v)\<rparr>])
                                   data1)))))"

fun import_rows ::
  "(string \<Rightarrow> int option) \<Rightarrow> (string \<times> string option) list list \<Rightarrow> import_log \<Rightarrow> py_error + import_log"
where
  "import_rows float_of [] data = Inr data"
| "import_rows float_of (row # rows) data =
     (case import_row float_of row data of
        Inl e \<Rightarrow> Inl e
      | Inr data' \<Rightarrow> import_rows float_of rows data')"

text \<open>\<^verbatim>\<open>save_water_log\<close> where the environment can make the write fail. The function
  has no handler: \<^verbatim>\<open>open(WATER_LOG_FILE, 'w')\<close> may raise \<^verbatim>\<open>OSError\<close> before it touches
  the file, and a write may raise it after \<^verbatim>\<open>open\<close> has emptied the file, which then holds
  a part of the dump, possibly nothing, that is not a JSON document.\<close>

datatype write_outcome = Written | Open_Refused | Write_Failed string

definition save_water_log_in :: "write_outcome \<Rightarrow> world \<Rightarrow> daily_log \<Rightarrow> world \<times> py_error option" where
  "save_water_log_in outcome w data =
     (case outcome of
        Written \<Rightarrow> (save_water_log w data, None)
      | Open_Refused \<Rightarrow> (w, Some OSError)
      | Write_Failed s \<Rightarrow> (w\<lparr>log_file := Some (Malformed s)\<rparr>, Some OSError))"

text \<open>\<^verbatim>\<open>import_data_from_csv\<close>: every exception inside the \<^verbatim>\<open>try\<close> block ends in
  \<^verbatim>\<open>return False\<close>; \<^verbatim>\<open>save_water_log\<close> is the last statement of the block, and an
  exception that it raises is caught like the others. The file is opened without
  \<^verbatim>\<open>newline=''\<close>. The reader is lazy, but nothing outside the local dict changes before the
  save, so the rows are read first here.\<close>

definition import_data_from_csv ::
  "(string \<Rightarrow> int option) \<Rightarrow> write_outcome \<Rightarrow> world \<Rightarrow> string \<Rightarrow> world \<times> bool"
where
  "import_data_from_csv float_of outcome w input_file =
     (case load_water_log w of
        Inl e \<Rightarrow> (w, False)
      | Inr data \<Rightarrow>
          (case files w input_file of
             None \<Rightarrow> (w, False)
           | Some text \<Rightarrow>
               (case csv_records (split_lines [] (universal_newlines text)) parse_reset of
                  Inl e \<Rightarrow> (w, False)
                | Inr records \<Rightarrow>
                    (case import_rows float_of (dict_reader records)
                            (map (\<lambda>kv. (Some (fst kv), snd kv)) data) of
                       Inl e \<Rightarrow> (w, False)
                     | Inr data' \<Rightarrow>
                         (case save_water_log_in outcome w (json_object data') of
                            (w', None) \<Rightarrow> (w', True)
                          | (w', Some e) \<Rightarrow> (w', False))))))"

section \<open>Concrete logs\<close>

text \<open>Inputs on which the theorems below are evaluated. Day 739924 is 2026-11-04 and day
  738890 is 2024-01-05.\<close>

definition mk_entry :: "int \<Rightarrow> entry" where
  "mk_entry a = \<lparr>amount_ml = a, timestamp = Some ''2024-01-01T08:00:00'', note_text = None\<rparr>"

definition mk_world :: "document option \<Rightarrow> int \<Rightarrow> world" where
  "mk_world doc t = \<lparr>log_file = doc, files = (\<lambda>path. None), today = t\<rparr>"

definition hydrated_world :: world where
  "hydrated_world =
     mk_world (Some (Document [(''2026-11-04'', [mk_entry 1500, mk_entry 1007])])) 739924"

text \<open>On 2026-11-04: a log with 1 ml today, and a log whose only entry, of 1000 ml, is of
  the day before.\<close>

definition sip_world :: world where
  "sip_world = mk_world (Some (Document [(''2026-11-04'', [mk_entry 1])])) 739924"

definition day_before_world :: world where
  "day_before_world = mk_world (Some (Document [(''2026-11-03'', [mk_entry 1000])])) 739924"

definition zero_day_log :: daily_log where
  "zero_day_log = [(''2024-01-03'', [mk_entry 500]), (''2024-01-01'', [mk_entry 0])]"

definition only_zero_log :: daily_log where
  "only_zero_log = [(''2024-01-01'', [mk_entry 0])]"

definition gap_log :: daily_log where
  "gap_log = [(''2024-01-01'', [mk_entry 2000]), (''2024-01-05'', [mk_entry 2000])]"

text \<open>A reading of numbers on which the import is evaluated: a text of decimal digits
  with an optional sign has its value, as it has for \<^verbatim>\<open>float\<close>; no other text is read.
  (\<^verbatim>\<open>float\<close> reads more texts than these, \<^verbatim>\<open>500.0\<close> or \<^verbatim>\<open>1e3\<close> for example: this is
  one value of the parameter \<open>float_of\<close>, not \<^verbatim>\<open>float\<close> itself.)\<close>

definition is_digit :: "char \<Rightarrow> bool" where
  "is_digit c = (c \<in> set ''0123456789'')"

definition digit_value :: "char \<Rightarrow> nat" where
  "digit_value c = of_char c - 48"

definition digits_value :: "string \<Rightarrow> nat" where
  "digits_value s = fold (\<lambda>c n. 10 * n + digit_value c) s 0"

definition whole_number :: "string \<Rightarrow> int option" where
  "whole_number s =
     (let negative = (s \<noteq> [] \<and> hd s = CHR ''-'');
          body = (if s \<noteq> [] \<and> (hd s = CHR ''-'' \<or> hd s = CHR ''+'') then tl s else s)
      in if body \<noteq> [] \<and> list_all is_digit body
         then Some (if negative then - int (digits_value body) else int (digits_value body))
         else None)"

text \<open>CSV files for the import: one whose second row has an amount that is not a number,
  one without the column \<^verbatim>\<open>Amount (ml)\<close>, and one with a single row that can be
  imported.\<close>

definition csv_path :: string where
  "csv_path = ''water_intake_export.csv''"

definition bad_amount_text :: string where
  "bad_amount_text =
     ''Date,Timestamp,Amount (ml),Note'' @ [CR, LF] @
     ''2024-01-01,t1,500,ok'' @ [CR, LF] @
     ''2024-01-02,t2,abc,'' @ [CR, LF]"

definition missing_column_text :: string where
  "missing_column_text =
     ''Date,Timestamp,Note'' @ [CR, LF] @
     ''2024-01-01,t1,ok'' @ [CR, LF]"

definition one_row_text :: string where
  "one_row_text =
     ''Date,Timestamp,Amount (ml),Note'' @ [CR, LF] @
     ''2024-01-02,t1,500,ok'' @ [CR, LF]"

definition world_with_csv :: "string \<Rightarrow> world" where
  "world_with_csv text =
     \<lparr>log_file = Some (Document only_zero_log), files = [csv_path \<mapsto> text], today = 739924\<rparr>"


section \<open>Rows that make the import fail\<close>

text \<open>A row of the \<^verbatim>\<open>DictReader\<close> without one of the keys that the loop reads with
  \<^verbatim>\<open>row[...]\<close> (the header lacks the column), and a row whose amount is text that
  \<^verbatim>\<open>float\<close> rejects, or is \<^verbatim>\<open>None\<close> because the row ends before that column.\<close>

definition missing_column :: "(string \<times> string option) list \<Rightarrow> bool" where
  "missing_column row =
     (map_of row ''Date'' = None \<or> map_of row ''Amount (ml)'' = None \<or>
      map_of row ''Timestamp'' = None)"

definition bad_amount :: "(string \<Rightarrow> int option) \<Rightarrow> (string \<times> string option) list \<Rightarrow> bool" where
  "bad_amount float_of row =
     (case map_of row ''Amount (ml)'' of
        None \<Rightarrow> False
      | Some None \<Rightarrow> True
      | Some (Some amount) \<Rightarrow> float_of amount = None)"


text \<open>A log with a streak of two days that ends on 2026-11-04, and a log in which each of
  the 366 days up to 2026-11-04 has one entry of 2000 ml.\<close>

definition streak_log :: daily_log where
  "streak_log =
     [(''2026-11-04'', [mk_entry 2100]), (''2026-11-03'', [mk_entry 2000]),
      (''2026-11-01'', [mk_entry 2500])]"

definition full_year_log :: daily_log where
  "full_year_log = map (\<lambda>d. (isoformat d, [mk_entry 2000])) [739559..739924]"

section \<open>Days that meet the goal\<close>

text \<open>The test of the loop of \<^verbatim>\<open>get_streak_count\<close> for the day with ordinal \<open>d\<close>.\<close>

definition meets :: "daily_log \<Rightarrow> int \<Rightarrow> int \<Rightarrow> bool" where
  "meets data goal d = (goal \<le> sum_amounts (get_or_empty data (isoformat d)))"

text \<open>A log with two days of February 2024.\<close>

definition february_log :: daily_log where
  "february_log =
     [(''2024-02-10'', [mk_entry 1000, mk_entry 500]), (''2024-02-29'', [mk_entry 2500]),
      (''2024-03-01'', [mk_entry 900])]"

text \<open>A log with one entry on 1 January 999, day 364513.\<close>

definition year_999_log :: daily_log where
  "year_999_log = [(''0999-01-01'', [mk_entry 500])]"


text \<open>A log with one entry whose note holds a carriage return, and the same log with a line
  feed in its place.\<close>

definition cr_note_log :: daily_log where
  "cr_note_log =
     [(''2024-01-01'',
       [\<lparr>amount_ml = 500, timestamp = Some ''2024-01-01T08:00:00'',
         note_text = Some (''after'' @ [CR] @ ''run'')\<rparr>])]"

definition lf_note_log :: daily_log where
  "lf_note_log =
     [(''2024-01-01'',
       [\<lparr>amount_ml = 500, timestamp = Some ''2024-01-01T08:00:00'',
         note_text = Some (''after'' @ [LF] @ ''run'')\<rparr>])]"

definition cr_note_text :: string where
  "cr_note_text =
     ''Date,Timestamp,Amount (ml),Note'' @ [CR, LF] @
     ''2024-01-01,2024-01-01T08:00:00,500,'' @ [quotechar] @ ''after'' @ [CR] @ ''run'' @
     [quotechar, CR, LF]"


section \<open>What an import of exported rows gives\<close>

text \<open>The row that \<^verbatim>\<open>export_data_to_csv\<close> writes for an entry, the entry that
  \<^verbatim>\<open>import_data_from_csv\<close> builds from that row (an absent timestamp or note has become the
  empty string), and the log built from all the rows of a log: its dates in ascending
  order, without the dates that have no entry.\<close>

definition export_row :: "string \<Rightarrow> entry \<Rightarrow> string list" where
  "export_row date_str entry =
     [date_str, opt_text (timestamp entry), str_int (amount_ml entry), opt_text (note_text entry)]"

definition as_imported :: "entry \<Rightarrow> entry" where
  "as_imported e =
     \<lparr>amount_ml = amount_ml e, timestamp = Some (opt_text (timestamp e)),
      note_text = Some (opt_text (note_text e))\<rparr>"

definition reimported :: "daily_log \<Rightarrow> daily_log" where
  "reimported data =
     map (\<lambda>k. (k, map as_imported (get_or_empty data k)))
       (filter (\<lambda>k. get_or_empty data k \<noteq> []) (sort (map fst data)))"

section \<open>Lemmas about the helpers\<close>

lemma all_totals_loop_eq:
  "all_totals_loop data acc n =
     (acc @ filter (\<lambda>p. 0 < snd p) (map (\<lambda>p. (fst p, sum_amounts (snd p))) data),
      n + sum_list (map (\<lambda>p. length (snd p)) data))"
  by (induction data acc n rule: all_totals_loop.induct) (auto simp: Let_def)

lemma fold_min_fun: "(\<lambda>x m. if x < m then x else m) = (min :: string \<Rightarrow> string \<Rightarrow> string)"
  by (intro ext) (auto simp: min_def)

lemma fold_max_fun: "(\<lambda>x m. if m < x then x else m) = (max :: string \<Rightarrow> string \<Rightarrow> string)"
  by (intro ext) (auto simp: max_def)

lemma py_min_eq: "ks \<noteq> [] \<Longrightarrow> py_min ks = Min (set ks)"
  by (cases ks) (simp_all add: fold_min_fun Min.set_eq_fold del: set_simps)

lemma py_max_eq: "ks \<noteq> [] \<Longrightarrow> py_max ks = Max (set ks)"
  by (cases ks) (simp_all add: fold_max_fun Max.set_eq_fold del: set_simps)

lemma round_half_even_bounds: "\<bar>of_int (round_half_even x) - x\<bar> \<le> 1 / 2"
proof -
  define d where "d = x - of_int \<lfloor>x\<rfloor>"
  have d: "0 \<le> d" "d < 1" unfolding d_def by linarith+
  have x: "x = of_int \<lfloor>x\<rfloor> + d" unfolding d_def by simp
  have r: "round_half_even x =
      (if d < 1 / 2 then \<lfloor>x\<rfloor> else if 1 / 2 < d then \<lfloor>x\<rfloor> + 1
       else if even \<lfloor>x\<rfloor> then \<lfloor>x\<rfloor> else \<lfloor>x\<rfloor> + 1)"
    unfolding round_half_even_def Let_def d_def by simp
  have "\<bar>of_int (round_half_even x) - (of_int \<lfloor>x\<rfloor> + d)\<bar> \<le> 1 / 2"
    unfolding r using d by (simp add: abs_if)
  then show ?thesis using x by simp
qed

lemma py_round_1: "\<bar>py_round x 1 - x\<bar> \<le> 1 / 20"
proof -
  have "\<bar>of_int (round_half_even (x * 10)) - x * 10\<bar> \<le> 1 / 2"
    by (rule round_half_even_bounds)
  then show ?thesis
    unfolding py_round_def by (simp add: abs_if field_simps split: if_splits)
qed

lemma py_round_1_tenths: "\<exists>k::int. py_round x 1 = of_int k / 10"
  by (auto simp: py_round_def)

section \<open>Dates of the examples\<close>

lemma iso_739921: "isoformat 739921 = ''2026-11-01''"
  by code_simp

lemma iso_739922: "isoformat 739922 = ''2026-11-02''"
  by code_simp

lemma iso_739923: "isoformat 739923 = ''2026-11-03''"
  by code_simp

lemma iso_739924: "isoformat 739924 = ''2026-11-04''"
  by code_simp

section \<open>Loading the document\<close>

text \<open>
  C8. \<^verbatim>\<open>load_water_log\<close> returns the empty log when the document does not exist, and
  raises the parse error of \<^verbatim>\<open>json.load\<close> when the document exists and is malformed: the
  failure reaches the caller, it is not turned into an empty log.
\<close>

theorem load_missing_or_malformed:
  "(log_file w = None \<longrightarrow> load_water_log w = Inr []) \<and>
   (\<forall>s. log_file w = Some (Malformed s) \<longrightarrow>
      load_water_log w = Inl JSONDecodeError \<and> load_water_log w \<noteq> Inr [])"
  by (simp add: load_water_log_def)

theorem load_missing_or_malformed_witness:
  "log_file (mk_world None 739924) = None \<and> load_water_log (mk_world None 739924) = Inr [] \<and>
   log_file (mk_world (Some (Malformed ''{oops'')) 739924) = Some (Malformed ''{oops'') \<and>
   load_water_log (mk_world (Some (Malformed ''{oops'')) 739924) = Inl JSONDecodeError"
  using load_missing_or_malformed [of "mk_world None 739924"]
    load_missing_or_malformed [of "mk_world (Some (Malformed ''{oops'')) 739924"]
  by (simp add: mk_world_def)

section \<open>Percentage of the goal\<close>

subsection \<open>The error of a float\<close>

lemma bit_length_bounds:
  "0 < n \<Longrightarrow> 2 ^ (bit_length n - 1) \<le> n \<and> n < 2 ^ bit_length n"
proof (induction n rule: bit_length.induct)
  case (1 n)
  show ?case
  proof (cases "n div 2 = 0")
    case True
    with 1(2) have "n = 1" by (simp add: div_eq_0_iff)
    then show ?thesis by (simp add: bit_length.simps)
  next
    case False
    then have h: "0 < n div 2" by simp
    from 1(1) [OF _ h] 1(2) have ih: "2 ^ (bit_length (n div 2) - 1) \<le> n div 2"
      "n div 2 < 2 ^ bit_length (n div 2)" by simp_all
    have b: "bit_length n = Suc (bit_length (n div 2))"
      using 1(2) by (subst bit_length.simps) simp
    have pos: "0 < bit_length (n div 2)"
      using h by (subst bit_length.simps) simp
    then have e: "2 ^ bit_length (n div 2) = (2::nat) * 2 ^ (bit_length (n div 2) - 1)"
      by (cases "bit_length (n div 2)") simp_all
    have "2 ^ (bit_length n - 1) \<le> n"
      using ih(1) e unfolding b by (simp; linarith)
    moreover have "n < 2 ^ bit_length n"
      using ih(2) unfolding b by (simp; linarith)
    ultimately show ?thesis by simp
  qed
qed

lemma two_powi_less_imp: "(2::rat) powi m < 2 powi n \<Longrightarrow> m < n"
  by (metis linorder_not_less one_le_numeral power_int_increasing)

lemma floor_log2_bounds:
  assumes "0 < x"
  shows "2 powi (floor_log2 x) \<le> x \<and> x < 2 powi (floor_log2 x + 1)"
proof -
  obtain a b where q: "quotient_of x = (a, b)" by (cases "quotient_of x")
  then have b: "0 < b" by (rule quotient_of_denom_pos)
  from q have x: "x = of_int a / of_int b" by (rule quotient_of_div)
  with assms b have a: "0 < a" by (simp add: zero_less_divide_iff)
  define la where "la = bit_length (nat a)"
  define lb where "lb = bit_length (nat b)"
  define d where "d = int la - int lb"
  from bit_length_bounds [of "nat a"] a
  have a1: "2 ^ (la - 1) \<le> nat a" and a2: "nat a < 2 ^ la" by (simp_all add: la_def)
  from bit_length_bounds [of "nat b"] b
  have b1: "2 ^ (lb - 1) \<le> nat b" and b2: "nat b < 2 ^ lb" by (simp_all add: lb_def)
  have la: "0 < la" using a2 a by (cases la) simp_all
  have lb: "0 < lb" using b2 b by (cases lb) simp_all
  have ra1: "(2::rat) powi (int la - 1) \<le> of_int a"
  proof -
    have "(2::rat) powi (int la - 1) = 2 ^ (la - 1)"
      using la by (simp add: power_int_def nat_diff_distrib)
    also have "\<dots> = of_nat (2 ^ (la - 1))" by simp
    also have "\<dots> \<le> of_nat (nat a)" using a1 by (simp only: of_nat_le_iff)
    also have "\<dots> = of_int a" using a by simp
    finally show ?thesis .
  qed
  have ra2: "of_int a < (2::rat) powi (int la)"
  proof -
    have "of_int a = (of_nat (nat a) :: rat)" using a by simp
    also have "\<dots> < of_nat (2 ^ la)" using a2 by (simp only: of_nat_less_iff)
    also have "\<dots> = 2 powi (int la)" by simp
    finally show ?thesis .
  qed
  have rb1: "(2::rat) powi (int lb - 1) \<le> of_int b"
  proof -
    have "(2::rat) powi (int lb - 1) = 2 ^ (lb - 1)"
      using lb by (simp add: power_int_def nat_diff_distrib)
    also have "\<dots> = of_nat (2 ^ (lb - 1))" by simp
    also have "\<dots> \<le> of_nat (nat b)" using b1 by (simp only: of_nat_le_iff)
    also have "\<dots> = of_int b" using b by simp
    finally show ?thesis .
  qed
  have rb2: "of_int b < (2::rat) powi (int lb)"
  proof -
    have "of_int b = (of_nat (nat b) :: rat)" using b by simp
    also have "\<dots> < of_nat (2 ^ lb)" using b2 by (simp only: of_nat_less_iff)
    also have "\<dots> = 2 powi (int lb)" by simp
    finally show ?thesis .
  qed
  have up: "x < 2 powi (d + 1)"
  proof -
    have "x < 2 powi (int la) / 2 powi (int lb - 1)"
      unfolding x using a ra2 rb1 by (intro frac_less) simp_all
    also have "\<dots> = 2 powi (int la - (int lb - 1))"
      by (simp add: power_int_diff)
    finally show ?thesis by (simp add: d_def algebra_simps)
  qed
  have lo: "2 powi (d - 1) < x"
  proof -
    have "(2::rat) powi (d - 1) = 2 powi (int la - 1 - int lb)"
      by (simp add: d_def algebra_simps)
    also have "\<dots> = 2 powi (int la - 1) / 2 powi (int lb)"
      by (rule power_int_diff) simp
    also have "\<dots> < of_int a / of_int b"
      using b rb2 ra1 by (intro frac_less2) simp_all
    finally show ?thesis unfolding x .
  qed
  have f: "floor_log2 x = (if 2 powi d \<le> x then d else d - 1)"
    by (simp add: floor_log2_def q d_def la_def lb_def)
  show ?thesis
  proof (cases "2 powi d \<le> x")
    case True
    with f up show ?thesis by simp
  next
    case False
    with f lo show ?thesis by simp
  qed
qed

lemma to_double_error:
  assumes "2 powi (- 1022) \<le> \<bar>x\<bar>" and "\<bar>x\<bar> < 2 powi 1023"
  shows "\<exists>y. to_double x = Finite y \<and> \<bar>y - x\<bar> \<le> \<bar>x\<bar> / 2 ^ 53"
proof -
  have "(0::rat) < 2 powi (- 1022)" by (rule zero_less_power_int) simp
  with assms(1) have pos: "0 < \<bar>x\<bar>" by linarith
  then have x0: "x \<noteq> 0" by simp
  define e where "e = floor_log2 \<bar>x\<bar>"
  from floor_log2_bounds [OF pos]
  have e1: "2 powi e \<le> \<bar>x\<bar>" and e2: "\<bar>x\<bar> < 2 powi (e + 1)" by (simp_all add: e_def)
  have "(2::rat) powi (- 1022) < 2 powi (e + 1)" using assms(1) e2 by simp
  then have elo: "- 1022 \<le> e" using two_powi_less_imp [of "- 1022" "e + 1"] by simp
  have "(2::rat) powi e < 2 powi 1023" using assms(2) e1 by simp
  then have ehi: "e \<le> 1022" using two_powi_less_imp [of e 1023] by simp
  define q where "q = (2::rat) powi (e - 52)"
  have q: "0 < q" by (simp add: q_def zero_less_power_int)
  define m where "m = round_half_even (\<bar>x\<bar> / q)"
  define y where "y = of_int m * q"
  have "\<bar>of_int m - \<bar>x\<bar> / q\<bar> \<le> 1 / 2" unfolding m_def by (rule round_half_even_bounds)
  then have "\<bar>of_int m - \<bar>x\<bar> / q\<bar> * q \<le> 1 / 2 * q" using q by (intro mult_right_mono) simp_all
  moreover have "\<bar>of_int m - \<bar>x\<bar> / q\<bar> * q = \<bar>y - \<bar>x\<bar>\<bar>"
  proof -
    have "\<bar>of_int m - \<bar>x\<bar> / q\<bar> * q = \<bar>(of_int m - \<bar>x\<bar> / q) * q\<bar>"
      using q by (simp add: abs_mult)
    also have "(of_int m - \<bar>x\<bar> / q) * q = y - \<bar>x\<bar>"
      using q by (simp add: y_def algebra_simps)
    finally show ?thesis .
  qed
  ultimately have d: "\<bar>y - \<bar>x\<bar>\<bar> \<le> q / 2" by simp
  have q2: "q / 2 = 2 powi e / 2 ^ 53"
  proof -
    have "(2::rat) powi (e - 52) = 2 powi e / 2 powi 52" by (simp add: power_int_diff)
    then show ?thesis by (simp add: q_def)
  qed
  have err: "\<bar>y - \<bar>x\<bar>\<bar> \<le> \<bar>x\<bar> / 2 ^ 53"
  proof -
    have "2 powi e / 2 ^ 53 \<le> \<bar>x\<bar> / 2 ^ 53" using e1 by (simp add: divide_right_mono)
    with d q2 show ?thesis by simp
  qed
  have small: "y < 2 powi 1024"
  proof -
    have "y \<le> \<bar>x\<bar> + \<bar>x\<bar> / 2 ^ 53" using err by linarith
    also have "\<dots> \<le> \<bar>x\<bar> + \<bar>x\<bar>" by (simp add: pos_divide_le_eq)
    also have "\<dots> < 2 powi 1023 + 2 powi 1023" using assms(2) by simp
    also have "\<dots> = (2::rat) powi 1024" by simp
    finally show ?thesis .
  qed
  have mx: "max (floor_log2 \<bar>x\<bar>) (- 1022) - 52 = e - 52"
    using elo by (simp add: e_def max_def)
  from small have ns: "\<not> 2 powi 1024 \<le> y" by (simp only: not_le)
  have t: "to_double x = Finite (if 0 < x then y else - y)"
    unfolding to_double_def Let_def mx
    unfolding q_def [symmetric]
    unfolding m_def [symmetric]
    unfolding y_def [symmetric]
    by (simp only: x0 ns if_False)
  have "\<bar>(if 0 < x then y else - y) - x\<bar> = \<bar>y - \<bar>x\<bar>\<bar>"
    using x0 by (auto simp: abs_if)
  with t err show ?thesis by simp
qed


lemma to_double_0: "to_double 0 = Finite 0"
  by (simp add: to_double_def)

lemma double_range:
  fixes B :: rat
  assumes "B = 2 ^ 1000"
  shows "2 powi (- 1022) \<le> 1 / B" and "2 powi (- 1022) \<le> (1 / 10 :: rat)"
    and "400 * B + 1 / 20 < 2 powi 1023" and "1 \<le> B"
proof -
  have B: "B = 2 powi 1000" unfolding assms by (simp only: power_int_numeral)
  have i: "1 / B = 2 powi (- 1000)"
    unfolding B by (simp only: power_int_minus_divide)
  show "2 powi (- 1022) \<le> 1 / B"
    unfolding i by (rule power_int_increasing) simp_all
  have "(2::rat) powi (- 1022) \<le> 2 powi (- 4)"
    by (rule power_int_increasing) simp_all
  also have "(2::rat) powi (- 4) \<le> 1 / 10" by (simp add: power_int_minus_divide)
  finally show "2 powi (- 1022) \<le> (1 / 10 :: rat)" .
  have b1: "(1::rat) \<le> 2 powi 1000"
    using power_int_increasing [of 0 1000 "2::rat"] by simp
  then show "1 \<le> B" unfolding B .
  have "400 * B + 1 / 20 < 2 powi 10 * B"
    using b1 unfolding B [symmetric] by simp
  also have "\<dots> = 2 powi (10 + 1000)"
    unfolding B by (rule power_int_add [symmetric]) simp
  also have "\<dots> \<le> 2 powi 1023" by (rule power_int_increasing) simp_all
  finally show "400 * B + 1 / 20 < 2 powi 1023" .
qed

lemma percentage_value:
  assumes "0 < g" and "g < 2 ^ 1000" and "\<bar>t\<bar> < 2 ^ 1000"
  shows "\<exists>q k r. py_truediv t g = Inr (Finite q) \<and>
           float_round (float_mul (Finite q) 100) 1 = Finite r \<and>
           to_double (of_int k / 10) = Finite r \<and>
           \<bar>of_int k / 10 - 100 * of_int t / of_int g :: rat\<bar>
             \<le> 1 / 20 + \<bar>100 * of_int t / of_int g\<bar> / 2 ^ 51"
proof (cases "t = 0")
  case True
  have "round_half_even 0 = 0" by (simp add: round_half_even_def)
  then have "py_round 0 1 = 0" by (simp add: py_round_def)
  then show ?thesis
    using True assms(1)
    by (intro exI [of _ 0]) (simp add: py_truediv_def float_mul_def float_round_def to_double_0)
next
  case False
  define B :: rat where "B = 2 ^ 1000"
  define L :: rat where "L = 2 powi (- 1022)"
  define U :: rat where "U = 2 powi 1023"
  note dr = double_range [OF B_def, folded L_def U_def]
  have B0: "0 < B" using dr(4) by linarith
  define E :: rat where "E = of_int t / of_int g"
  define a where "a = \<bar>E\<bar>"
  define c where "c = a / 2 ^ 53"
  have g0: "(0::rat) < of_int g" and g1: "(1::rat) \<le> of_int g" using assms(1) by simp_all
  have gB: "(of_int g :: rat) < B"
  proof -
    have "(of_int g :: rat) < of_int (2 ^ 1000)" using assms(2) by (simp only: of_int_less_iff)
    then show ?thesis unfolding B_def by (simp only: of_int_power of_int_numeral)
  qed
  have tB: "\<bar>of_int t :: rat\<bar> < B"
  proof -
    have "(of_int \<bar>t\<bar> :: rat) < of_int (2 ^ 1000)" using assms(3) by (simp only: of_int_less_iff)
    then show ?thesis unfolding B_def by (simp only: of_int_power of_int_numeral of_int_abs)
  qed
  have t1: "1 \<le> \<bar>of_int t :: rat\<bar>"
  proof -
    have "1 \<le> \<bar>t\<bar>" using False by simp
    then have "(of_int 1 :: rat) \<le> of_int \<bar>t\<bar>" by (simp only: of_int_le_iff)
    then show ?thesis by simp
  qed
  have a_eq: "a = \<bar>of_int t\<bar> / of_int g" using g0 by (simp add: a_def E_def)
  have a_lo: "1 / B \<le> a"
    unfolding a_eq using t1 g0 gB by (intro frac_le) simp_all
  have a_hi: "a < B"
  proof -
    have "\<bar>of_int t :: rat\<bar> / of_int g \<le> \<bar>of_int t\<bar> / 1"
      using g1 by (intro frac_le) simp_all
    with tB show ?thesis unfolding a_eq by simp
  qed
  have a0: "0 < a"
  proof -
    have "0 < 1 / B" using B0 by simp
    with a_lo show ?thesis by linarith
  qed
  have c: "0 \<le> c" "c \<le> a / 4" "a = 2 ^ 53 * c" using a0 by (simp_all add: c_def)
  have "\<exists>q. to_double E = Finite q \<and> \<bar>q - E\<bar> \<le> \<bar>E\<bar> / 2 ^ 53"
  proof (rule to_double_error)
    show "2 powi - 1022 \<le> \<bar>E\<bar>"
      unfolding L_def [symmetric] a_def [symmetric] using a_lo dr(1) by linarith
    show "\<bar>E\<bar> < 2 powi 1023"
      unfolding U_def [symmetric] a_def [symmetric] using a_hi dr(3) B0 by linarith
  qed
  then obtain q where q: "to_double E = Finite q" and qe: "\<bar>q - E\<bar> \<le> c"
    unfolding c_def a_def by blast
  have q_hi: "\<bar>q\<bar> \<le> 2 * a" and q_lo: "a / 2 \<le> \<bar>q\<bar>"
    using qe c unfolding a_def by linarith+
  define x2 where "x2 = q * 100"
  have x2a: "\<bar>x2\<bar> = 100 * \<bar>q\<bar>" by (simp add: x2_def abs_mult)
  have "\<exists>y. to_double x2 = Finite y \<and> \<bar>y - x2\<bar> \<le> \<bar>x2\<bar> / 2 ^ 53"
  proof (rule to_double_error)
    have "\<bar>x2\<bar> \<ge> 50 * a" using q_lo x2a by simp
    then show "2 powi - 1022 \<le> \<bar>x2\<bar>"
      unfolding L_def [symmetric] using a_lo dr(1) a0 by linarith
    have "\<bar>x2\<bar> \<le> 200 * a" using q_hi x2a by simp
    then show "\<bar>x2\<bar> < 2 powi 1023"
      unfolding U_def [symmetric] using a_hi dr(3) B0 by linarith
  qed
  then obtain y where y: "to_double x2 = Finite y" and ye0: "\<bar>y - x2\<bar> \<le> \<bar>x2\<bar> / 2 ^ 53"
    by blast
  have "\<bar>x2\<bar> / 2 ^ 53 \<le> 200 * a / 2 ^ 53"
    using q_hi x2a by (simp add: divide_right_mono)
  also have "\<dots> = 200 * c" by (simp add: c_def)
  finally have ye: "\<bar>y - x2\<bar> \<le> 200 * c" using ye0 by linarith
  have xe: "\<bar>x2 - 100 * E\<bar> \<le> 100 * c"
  proof -
    have "x2 - 100 * E = 100 * (q - E)" by (simp add: x2_def algebra_simps)
    then have "\<bar>x2 - 100 * E\<bar> = \<bar>100 * (q - E)\<bar>" by (simp only:)
    also have "\<dots> = 100 * \<bar>q - E\<bar>" by (simp only: abs_mult abs_numeral)
    finally show ?thesis using qe by simp
  qed
  have y_hi: "\<bar>y\<bar> \<le> 400 * a"
    using ye q_hi x2a c by linarith
  define k where "k = round_half_even (y * 10)"
  have pr: "py_round y 1 = of_int k / 10" by (simp add: py_round_def k_def)
  have ke: "\<bar>of_int k / 10 - y\<bar> \<le> 1 / 20" using py_round_1 [of y] unfolding pr .
  have "\<exists>r. to_double (of_int k / 10) = Finite r"
  proof (cases "k = 0")
    case True
    then show ?thesis by (simp add: to_double_0)
  next
    case False
    then have "1 \<le> \<bar>k\<bar>" by simp
    then have "(of_int 1 :: rat) \<le> of_int \<bar>k\<bar>" by (simp only: of_int_le_iff)
    then have k1: "1 / 10 \<le> \<bar>of_int k / 10 :: rat\<bar>" by simp
    have "\<exists>r. to_double (of_int k / 10) = Finite r \<and>
            \<bar>r - of_int k / 10\<bar> \<le> \<bar>of_int k / 10\<bar> / 2 ^ 53"
    proof (rule to_double_error)
      show "2 powi - 1022 \<le> \<bar>of_int k / 10 :: rat\<bar>"
        unfolding L_def [symmetric] using k1 dr(2) by linarith
      have "\<bar>of_int k / 10 :: rat\<bar> \<le> 400 * a + 1 / 20" using ke y_hi by linarith
      then show "\<bar>of_int k / 10 :: rat\<bar> < 2 powi 1023"
        unfolding U_def [symmetric] using a_hi dr(3) by linarith
    qed
    then show ?thesis by blast
  qed
  then obtain r where r: "to_double (of_int k / 10) = Finite r" by blast
  have bound: "\<bar>of_int k / 10 - 100 * E\<bar> \<le> 1 / 20 + 100 * a / 2 ^ 51"
  proof -
    have "\<bar>of_int k / 10 - 100 * E\<bar> \<le> 1 / 20 + 300 * c" using ke ye xe by linarith
    also have "\<dots> \<le> 1 / 20 + 400 * c" using c(1) by simp
    also have "400 * c = 100 * a / 2 ^ 51" by (simp add: c_def)
    finally show ?thesis .
  qed
  have e100: "100 * of_int t / of_int g = 100 * E" by (simp add: E_def)
  have a100: "\<bar>100 * E\<bar> = 100 * a" by (simp add: a_def abs_mult)
  have d: "py_truediv t g = Inr (Finite q)"
    using assms(1) q by (simp add: py_truediv_def E_def)
  have fr: "float_round (float_mul (Finite q) 100) 1 = Finite r"
  proof -
    have "float_mul (Finite q) 100 = Finite y"
      using y by (simp add: float_mul_def x2_def)
    then have "float_round (float_mul (Finite q) 100) 1 = to_double (py_round y 1)"
      by (simp add: float_round_def)
    also have "\<dots> = Finite r" unfolding pr by (rule r)
    finally show ?thesis .
  qed
  show ?thesis
    unfolding e100 a100 using d fr r bound by blast
qed

text \<open>Evaluating \<open>to_double\<close> once the exponent is known.\<close>

lemma floor_log2_eq:
  assumes "2 powi e \<le> x" and "x < 2 powi (e + 1)"
  shows "floor_log2 x = e"
proof -
  have "(0::rat) < 2 powi e" by (rule zero_less_power_int) simp
  with assms(1) have "0 < x" by linarith
  from floor_log2_bounds [OF this]
  have f: "2 powi (floor_log2 x) \<le> x" "x < 2 powi (floor_log2 x + 1)" by simp_all
  have "(2::rat) powi e < 2 powi (floor_log2 x + 1)" using assms(1) f(2) by linarith
  then have "e < floor_log2 x + 1" by (rule two_powi_less_imp)
  moreover have "(2::rat) powi (floor_log2 x) < 2 powi (e + 1)" using assms(2) f(1) by linarith
  then have "floor_log2 x < e + 1" by (rule two_powi_less_imp)
  ultimately show ?thesis by linarith
qed

lemma to_double_normal:
  assumes "0 < x" and "2 powi e \<le> x" and "x < 2 powi (e + 1)" and "- 1022 \<le> e"
    and "round_half_even (x / 2 powi (e - 52)) = m"
    and "of_int m * 2 powi (e - 52) < (2::rat) powi 1024"
  shows "to_double x = Finite (of_int m * 2 powi (e - 52))"
proof -
  have a: "\<bar>x\<bar> = x" using assms(1) by simp
  have e: "floor_log2 x = e" using assms(2,3) by (rule floor_log2_eq)
  have mx: "max e (- 1022) - 52 = e - 52" using assms(4) by (simp add: max_def)
  from assms(6) have ns: "\<not> 2 powi 1024 \<le> rat_of_int m * 2 powi (e - 52)"
    by (simp only: not_le)
  have x0: "x \<noteq> 0" using assms(1) by simp
  show ?thesis
    unfolding to_double_def Let_def a e mx assms(5)
    by (simp only: x0 ns assms(1) if_False if_True)
qed

lemma floor_rat_numeral: "\<lfloor>numeral a / numeral b :: rat\<rfloor> = numeral a div numeral b"
  using floor_divide_of_int_eq [of "numeral a" "numeral b", where ?'a = rat] by simp

lemmas double_eval = round_half_even_def power_int_minus_divide Let_def floor_rat_numeral

lemma double_of_1_2000:
  "to_double (1 / 2000) = Finite (1152921504606847 / 2305843009213693952)"
proof -
  have "to_double (1 / 2000) = Finite (of_int 4611686018427388 * 2 powi (- 11 - 52))"
    by (rule to_double_normal) (simp_all add: double_eval)
  then show ?thesis by (simp add: power_int_minus_divide)
qed

lemma double_of_1_2000_times_100:
  "to_double (1152921504606847 / 2305843009213693952 * 100) =
     Finite (3602879701896397 / 72057594037927936)"
proof -
  have "to_double (1152921504606847 / 2305843009213693952 * 100) =
          Finite (of_int 7205759403792794 * 2 powi (- 5 - 52))"
    by (rule to_double_normal) (simp_all add: double_eval)
  then show ?thesis by (simp add: power_int_minus_divide)
qed

lemma round_of_1_2000_times_100:
  "py_round (3602879701896397 / 72057594037927936) 1 = 1 / 10"
  by (simp add: py_round_def double_eval)

lemma double_of_2507_2000:
  "to_double (2507 / 2000) = Finite (5645262132908917 / 4503599627370496)"
proof -
  have "to_double (2507 / 2000) = Finite (of_int 5645262132908917 * 2 powi (0 - 52))"
    by (rule to_double_normal) (simp_all add: double_eval)
  then show ?thesis by (simp add: power_int_minus_divide)
qed

lemma double_of_2507_2000_times_100:
  "to_double (5645262132908917 / 4503599627370496 * 100) =
     Finite (8820722082670183 / 70368744177664)"
proof -
  have "to_double (5645262132908917 / 4503599627370496 * 100) =
          Finite (of_int 8820722082670183 * 2 powi (6 - 52))"
    by (rule to_double_normal) (simp_all add: double_eval)
  then show ?thesis by (simp add: power_int_minus_divide)
qed

lemma round_of_2507_2000_times_100:
  "py_round (8820722082670183 / 70368744177664) 1 = 1254 / 10"
  by (simp add: py_round_def double_eval)


subsection \<open>The percentage\<close>

lemma hydration_no_zero_division: "get_hydration_percentage w goal \<noteq> Inl ZeroDivisionError"
  by (auto simp: get_hydration_percentage_def py_truediv_def get_today_total_def with_log_def
        load_water_log_def split: sum.splits option.splits document.splits pyfloat.splits)

lemma hydration_nonpositive_goal:
  "get_today_total w = Inr t \<Longrightarrow> goal \<le> 0 \<Longrightarrow>
   get_hydration_percentage w goal = Inr (Finite 0)"
  by (simp add: get_hydration_percentage_def)

lemma hydration_positive_goal:
  assumes "get_today_total w = Inr t" and "0 < goal" and "goal < 2 ^ 1000" and "\<bar>t\<bar> < 2 ^ 1000"
  shows "\<exists>k r. get_hydration_percentage w goal = Inr (Finite r) \<and>
           to_double (of_int k / 10) = Finite r \<and>
           \<bar>of_int k / 10 - 100 * of_int t / of_int goal :: rat\<bar>
             \<le> 1 / 20 + \<bar>100 * of_int t / of_int goal\<bar> / 2 ^ 51"
proof -
  from percentage_value [OF assms(2,3,4)] obtain q k r where
    "py_truediv t goal = Inr (Finite q)"
    "float_round (float_mul (Finite q) 100) 1 = Finite r"
    "to_double (of_int k / 10) = Finite r"
    "\<bar>of_int k / 10 - 100 * of_int t / of_int goal :: rat\<bar>
       \<le> 1 / 20 + \<bar>100 * of_int t / of_int goal\<bar> / 2 ^ 51"
    by blast
  then show ?thesis
    using assms(1,2) by (intro exI [of _ k] exI [of _ r]) (simp add: get_hydration_percentage_def)
qed

lemma hydrated_world_total: "get_today_total hydrated_world = Inr 2507"
  by code_simp

lemma sip_world_total: "get_today_total sip_world = Inr 1"
  by code_simp

lemma day_before_world_total: "get_today_total day_before_world = Inr 0"
  by code_simp

lemma percentage_1_of_2000:
  "(case py_truediv 1 2000 of Inl e \<Rightarrow> Inl e
    | Inr q \<Rightarrow> Inr (float_round (float_mul q 100) 1)) = Inr (to_double (1 / 10))"
proof -
  have "py_truediv 1 2000 = Inr (Finite (1152921504606847 / 2305843009213693952))"
    by (simp add: py_truediv_def double_of_1_2000)
  moreover have "float_mul (Finite (1152921504606847 / 2305843009213693952)) 100 =
      Finite (3602879701896397 / 72057594037927936)"
    unfolding float_mul_def by (simp only: pyfloat.case double_of_1_2000_times_100)
  moreover have "float_round (Finite (3602879701896397 / 72057594037927936)) 1 =
      to_double (1 / 10)"
    unfolding float_round_def by (simp only: pyfloat.case round_of_1_2000_times_100)
  ultimately show ?thesis by (simp only: sum.case)
qed

lemma percentage_2507_of_2000:
  "(case py_truediv 2507 2000 of Inl e \<Rightarrow> Inl e
    | Inr q \<Rightarrow> Inr (float_round (float_mul q 100) 1)) = Inr (to_double (1254 / 10))"
proof -
  have "py_truediv 2507 2000 = Inr (Finite (5645262132908917 / 4503599627370496))"
    by (simp add: py_truediv_def double_of_2507_2000)
  moreover have "float_mul (Finite (5645262132908917 / 4503599627370496)) 100 =
      Finite (8820722082670183 / 70368744177664)"
    unfolding float_mul_def by (simp only: pyfloat.case double_of_2507_2000_times_100)
  moreover have "float_round (Finite (8820722082670183 / 70368744177664)) 1 =
      to_double (1254 / 10)"
    unfolding float_round_def by (simp only: pyfloat.case round_of_2507_2000_times_100)
  ultimately show ?thesis by (simp only: sum.case)
qed

lemma sip_world_percentage:
  "get_hydration_percentage sip_world 2000 = Inr (to_double (1 / 10))"
  unfolding get_hydration_percentage_def sip_world_total
  using percentage_1_of_2000 by simp

lemma hydrated_world_percentage:
  "get_hydration_percentage hydrated_world 2000 = Inr (to_double (1254 / 10))"
  unfolding get_hydration_percentage_def hydrated_world_total
  using percentage_2507_of_2000 by simp

text \<open>
  C7, as the code has it. \<^verbatim>\<open>get_hydration_percentage\<close> takes the goal only, and the total
  is that of today. It never raises \<^verbatim>\<open>ZeroDivisionError\<close>. For a goal that is not positive
  the result is 0. For a positive goal (goal and total below \<open>2 ^ 1000\<close> in size) the result
  is the float nearest to a multiple \<open>k / 10\<close> of one tenth, and \<open>k / 10\<close> differs from
  the exact \<open>100 * total / goal\<close> by at most one twentieth and the error of the two float
  operations, a \<open>2 ^ 51\<close>th of the exact value; it may exceed 100.
\<close>

theorem hydration_percentage_of_today:
  "get_hydration_percentage w goal \<noteq> Inl ZeroDivisionError \<and>
   (\<forall>t. get_today_total w = Inr t \<longrightarrow>
      (goal \<le> 0 \<longrightarrow> get_hydration_percentage w goal = Inr (Finite 0)) \<and>
      (0 < goal \<and> goal < 2 ^ 1000 \<and> \<bar>t\<bar> < 2 ^ 1000 \<longrightarrow>
         (\<exists>k r. get_hydration_percentage w goal = Inr (Finite r) \<and>
            to_double (of_int k / 10) = Finite r \<and>
            \<bar>of_int k / 10 - 100 * of_int t / of_int goal :: rat\<bar>
              \<le> 1 / 20 + \<bar>100 * of_int t / of_int goal\<bar> / 2 ^ 51)))"
  using hydration_no_zero_division hydration_nonpositive_goal hydration_positive_goal
  by blast

theorem hydration_percentage_of_today_witness:
  "get_today_total hydrated_world = Inr 2507 \<and>
   (0::int) < 2000 \<and> (2000::int) < 2 ^ 1000 \<and> \<bar>2507::int\<bar> < 2 ^ 1000 \<and>
   (\<exists>k r. get_hydration_percentage hydrated_world 2000 = Inr (Finite r) \<and>
      to_double (of_int k / 10) = Finite r \<and>
      \<bar>of_int k / 10 - 100 * 2507 / 2000 :: rat\<bar> \<le> 1 / 20 + \<bar>100 * 2507 / 2000\<bar> / 2 ^ 51) \<and>
   get_hydration_percentage hydrated_world 2000 = Inr (to_double (1254 / 10)) \<and>
   get_hydration_percentage hydrated_world 0 = Inr (Finite 0) \<and>
   get_today_total sip_world = Inr 1 \<and>
   get_hydration_percentage sip_world 2000 = Inr (to_double (1 / 10))"
  using hydration_percentage_of_today [of hydrated_world 2000]
    hydration_percentage_of_today [of hydrated_world 0]
    hydrated_world_total hydrated_world_percentage sip_world_total sip_world_percentage
  by simp

text \<open>The claim as stated fails for a date that is not today. On 2026-11-04, with 1000 ml
  logged on 2026-11-03 and nothing today, the percentage of a goal of 2000 ml for
  2026-11-03 would be 50; \<^verbatim>\<open>get_hydration_percentage\<close>, which has no date, returns 0.\<close>

theorem hydration_percentage_of_the_day_before:
  "get_total_for_date day_before_world ''2026-11-03'' = Inr 1000 \<and>
   get_today_total day_before_world = Inr 0 \<and>
   get_hydration_percentage day_before_world 2000 = Inr (Finite 0) \<and>
   get_hydration_percentage day_before_world 2000 \<noteq> Inr (Finite (100 * 1000 / 2000))"
proof -
  have d: "get_total_for_date day_before_world ''2026-11-03'' = Inr 1000"
    by code_simp
  have r: "py_round 0 (Suc 0) = 0" by (simp add: py_round_def round_half_even_def)
  have h: "get_hydration_percentage day_before_world 2000 = Inr (Finite 0)"
    unfolding get_hydration_percentage_def day_before_world_total
    by (simp add: py_truediv_def float_mul_def float_round_def to_double_0 r)
  show ?thesis
    using d day_before_world_total h by simp
qed

section \<open>First and last logged date\<close>

lemma all_time_with_positive_day:
  assumes "load_water_log w = Inr data" and "\<exists>p \<in> set data. 0 < sum_amounts (snd p)"
  shows "\<exists>st. get_all_time_statistics w = Inr st \<and>
               first_logged_date st = Some (Min (set (map fst data))) \<and>
               last_logged_date st = Some (Max (set (map fst data)))"
proof -
  let ?pos = "filter (\<lambda>p. 0 < snd p) (map (\<lambda>p. (fst p, sum_amounts (snd p))) data)"
  have loop: "fst (all_totals_loop data [] 0) = ?pos"
    by (simp add: all_totals_loop_eq)
  from assms(2) obtain p where p: "p \<in> set data" "0 < sum_amounts (snd p)" by blast
  then have ne: "data \<noteq> []" by auto
  from p have "(fst p, sum_amounts (snd p)) \<in> set ?pos" by auto
  then have "?pos \<noteq> []" by (metis empty_iff list.set(1))
  then obtain t ts where "?pos = t # ts" by (cases ?pos) auto
  with loop obtain n where "all_totals_loop data [] 0 = (t # ts, n)"
    by (cases "all_totals_loop data [] 0") auto
  then show ?thesis
    using assms(1) ne
    by (simp add: get_all_time_statistics_def with_log_def all_time_statistics_of_def
          py_min_eq py_max_eq)
qed

lemma all_time_without_positive_day:
  assumes "load_water_log w = Inr data" and "\<forall>p \<in> set data. sum_amounts (snd p) \<le> 0"
  shows "\<exists>st. get_all_time_statistics w = Inr st \<and>
               first_logged_date st = None \<and> last_logged_date st = None"
proof -
  let ?pos = "filter (\<lambda>p. 0 < snd p) (map (\<lambda>p. (fst p, sum_amounts (snd p))) data)"
  have loop: "fst (all_totals_loop data [] 0) = ?pos"
    by (simp add: all_totals_loop_eq)
  from assms(2) have "?pos = []" by (auto simp: filter_empty_conv)
  with loop obtain n where "all_totals_loop data [] 0 = ([], n)"
    by (cases "all_totals_loop data [] 0") auto
  then show ?thesis
    using assms(1)
    by (simp add: get_all_time_statistics_def with_log_def all_time_statistics_of_def
          no_all_time_stats_def)
qed

text \<open>
  C6, as the code has it. When at least one date of the log has a positive total, the
  result of \<^verbatim>\<open>get_all_time_statistics\<close> has \<^verbatim>\<open>first_logged_date\<close> and
  \<^verbatim>\<open>last_logged_date\<close>, the least and the greatest key of the log, whatever the totals of
  those two dates are. When no date has a positive total, the early return gives a result
  without the two fields.
\<close>

theorem first_last_logged_date:
  "load_water_log w = Inr data \<Longrightarrow>
   ((\<exists>p \<in> set data. 0 < sum_amounts (snd p)) \<longrightarrow>
      (\<exists>st. get_all_time_statistics w = Inr st \<and>
            first_logged_date st = Some (Min (set (map fst data))) \<and>
            last_logged_date st = Some (Max (set (map fst data))))) \<and>
   ((\<forall>p \<in> set data. sum_amounts (snd p) \<le> 0) \<longrightarrow>
      (\<exists>st. get_all_time_statistics w = Inr st \<and>
            first_logged_date st = None \<and> last_logged_date st = None))"
  using all_time_with_positive_day all_time_without_positive_day by blast

theorem first_last_logged_date_witness:
  "load_water_log (mk_world (Some (Document zero_day_log)) 739924) = Inr zero_day_log \<and>
   (\<exists>p \<in> set zero_day_log. 0 < sum_amounts (snd p)) \<and>
   sum_amounts (get_or_empty zero_day_log ''2024-01-01'') = 0 \<and>
   (\<exists>st. get_all_time_statistics (mk_world (Some (Document zero_day_log)) 739924) = Inr st \<and>
         first_logged_date st = Some ''2024-01-01'' \<and>
         last_logged_date st = Some ''2024-01-03'') \<and>
   load_water_log (mk_world (Some (Document only_zero_log)) 739924) = Inr only_zero_log \<and>
   (\<exists>st. get_all_time_statistics (mk_world (Some (Document only_zero_log)) 739924) = Inr st \<and>
         first_logged_date st = None \<and> last_logged_date st = None)"
proof -
  have l1: "load_water_log (mk_world (Some (Document zero_day_log)) 739924) = Inr zero_day_log"
    and l2: "load_water_log (mk_world (Some (Document only_zero_log)) 739924) = Inr only_zero_log"
    by (simp_all add: load_water_log_def mk_world_def)
  have pos: "\<exists>p \<in> set zero_day_log. 0 < sum_amounts (snd p)"
    by (simp add: zero_day_log_def sum_amounts_def mk_entry_def)
  have zero: "\<forall>p \<in> set only_zero_log. sum_amounts (snd p) \<le> 0"
    by (simp add: only_zero_log_def sum_amounts_def mk_entry_def)
  have z: "sum_amounts (get_or_empty zero_day_log ''2024-01-01'') = 0"
    by (simp add: zero_day_log_def sum_amounts_def mk_entry_def get_or_empty_def)
  have mn: "Min (set (map fst zero_day_log)) = ''2024-01-01''"
    and mx: "Max (set (map fst zero_day_log)) = ''2024-01-03''"
    by (simp_all add: zero_day_log_def)
  show ?thesis
    using first_last_logged_date [OF l1] first_last_logged_date [OF l2] l1 l2 pos zero z mn mx
    by simp
qed

text \<open>The claim as stated fails on a log that is not empty and whose only date has total
  0: the result has no first and no last logged date.\<close>

theorem zero_only_log_has_no_logged_dates:
  "only_zero_log \<noteq> [] \<and>
   load_water_log (mk_world (Some (Document only_zero_log)) 739924) = Inr only_zero_log \<and>
   map_sum id first_logged_date
     (get_all_time_statistics (mk_world (Some (Document only_zero_log)) 739924)) = Inr None \<and>
   map_sum id last_logged_date
     (get_all_time_statistics (mk_world (Some (Document only_zero_log)) 739924)) = Inr None"
  by (simp add: only_zero_log_def mk_world_def load_water_log_def get_all_time_statistics_def
        with_log_def all_time_statistics_of_def sum_amounts_def mk_entry_def
        no_all_time_stats_def)

section \<open>A failed import\<close>

lemma import_row_fails:
  "missing_column row \<or> bad_amount float_of row \<Longrightarrow> \<exists>e. import_row float_of row data = Inl e"
  by (auto simp: import_row_def missing_column_def bad_amount_def Let_def
        split: option.splits sum.splits)

lemma import_rows_fails:
  "row \<in> set rows \<Longrightarrow> missing_column row \<or> bad_amount float_of row \<Longrightarrow>
   \<exists>e. import_rows float_of rows data = Inl e"
proof (induction rows arbitrary: data)
  case Nil
  then show ?case by simp
next
  case (Cons r rows)
  show ?case
  proof (cases "import_row float_of r data")
    case (Inl e)
    then show ?thesis by simp
  next
    case (Inr data')
    with import_row_fails [of r float_of data] Cons.prems have "row \<in> set rows" by auto
    with Cons.IH [of data'] Cons.prems(2) Inr show ?thesis by simp
  qed
qed

lemma import_false_cases:
  "import_data_from_csv float_of outcome w f = (w', False) \<Longrightarrow>
   w' = w \<or> (\<exists>s. outcome = Write_Failed s \<and> w' = w\<lparr>log_file := Some (Malformed s)\<rparr>)"
  by (auto simp: import_data_from_csv_def save_water_log_in_def
        split: sum.splits option.splits write_outcome.splits)

lemma import_true_written:
  "import_data_from_csv float_of outcome w f = (w', True) \<Longrightarrow> outcome = Written"
  by (auto simp: import_data_from_csv_def save_water_log_in_def
        split: sum.splits option.splits write_outcome.splits)

lemma import_missing_file:
  "files w f = None \<Longrightarrow> import_data_from_csv float_of outcome w f = (w, False)"
  by (auto simp: import_data_from_csv_def split: sum.splits option.splits)

lemma import_malformed_document:
  "load_water_log w = Inl e \<Longrightarrow> import_data_from_csv float_of outcome w f = (w, False)"
  by (simp add: import_data_from_csv_def)

lemma import_bad_row:
  assumes "files w f = Some text"
    and "csv_records (split_lines [] (universal_newlines text)) parse_reset = Inr records"
    and "row \<in> set (dict_reader records)"
    and "missing_column row \<or> bad_amount float_of row"
  shows "import_data_from_csv float_of outcome w f = (w, False)"
proof (cases "load_water_log w")
  case (Inl e)
  then show ?thesis by (simp add: import_data_from_csv_def)
next
  case (Inr data)
  from import_rows_fails [OF assms(3,4)]
  obtain e where
    "import_rows float_of (dict_reader records) (map (\<lambda>kv. (Some (fst kv), snd kv)) data) = Inl e"
    by blast
  with Inr assms(1,2) show ?thesis by (simp add: import_data_from_csv_def)
qed

lemmas csv_eval = parse_process_char_def parse_process_eol_def start_field_def
  parse_add_char_def parse_save_field_def parse_reset_def field_limit_def LF_def CR_def
  quotechar_def delimiter_def

lemma bad_amount_records:
  "csv_records (split_lines [] (universal_newlines bad_amount_text)) parse_reset =
     Inr [[''Date'', ''Timestamp'', ''Amount (ml)'', ''Note''],
          [''2024-01-01'', ''t1'', ''500'', ''ok''],
          [''2024-01-02'', ''t2'', ''abc'', '''']]"
  by (simp add: bad_amount_text_def csv_eval)

lemma missing_column_records:
  "csv_records (split_lines [] (universal_newlines missing_column_text)) parse_reset =
     Inr [[''Date'', ''Timestamp'', ''Note''], [''2024-01-01'', ''t1'', ''ok'']]"
  by (simp add: missing_column_text_def csv_eval)

lemma one_row_records:
  "csv_records (split_lines [] (universal_newlines one_row_text)) parse_reset =
     Inr [[''Date'', ''Timestamp'', ''Amount (ml)'', ''Note''],
          [''2024-01-02'', ''t1'', ''500'', ''ok'']]"
  by (simp add: one_row_text_def csv_eval)

lemma whole_number_500: "whole_number ''500'' = Some 500"
  by (simp add: whole_number_def is_digit_def digits_value_def digit_value_def)

lemma one_row_import:
  "import_rows whole_number
     (dict_reader [[''Date'', ''Timestamp'', ''Amount (ml)'', ''Note''],
          [''2024-01-02'', ''t1'', ''500'', ''ok'']])
     (map (\<lambda>kv. (Some (fst kv), snd kv)) only_zero_log) =
   Inr [(Some ''2024-01-01'', [mk_entry 0]),
        (Some ''2024-01-02'',
         [\<lparr>amount_ml = 500, timestamp = Some ''t1'', note_text = Some ''ok''\<rparr>])]"
  by (simp add: dict_reader_def dict_row_def import_row_def whole_number_500 only_zero_log_def)

text \<open>
  C9, as the code has it. \<^verbatim>\<open>import_data_from_csv\<close> returns \<^verbatim>\<open>False\<close> with every file
  as it was, the document included, when the CSV file is missing and when any row of the
  file lacks a required column or has an amount that \<^verbatim>\<open>float\<close> does not read, however
  many rows before it were read: the save is the last step. Whenever it returns
  \<^verbatim>\<open>False\<close>, either the files are as they were, or it is the write of the save that
  failed and the document holds what that write left of it.
\<close>

theorem import_failure_before_save:
  "(files w f = None \<longrightarrow> import_data_from_csv float_of outcome w f = (w, False)) \<and>
   (\<forall>text records row.
      files w f = Some text \<and>
      csv_records (split_lines [] (universal_newlines text)) parse_reset = Inr records \<and>
      row \<in> set (dict_reader records) \<and> (missing_column row \<or> bad_amount float_of row)
      \<longrightarrow> import_data_from_csv float_of outcome w f = (w, False)) \<and>
   (\<forall>w'. import_data_from_csv float_of outcome w f = (w', False) \<longrightarrow>
      w' = w \<or> (\<exists>s. outcome = Write_Failed s \<and> w' = w\<lparr>log_file := Some (Malformed s)\<rparr>))"
  using import_false_cases import_missing_file import_bad_row by blast

theorem import_failure_before_save_witness:
  "files (mk_world (Some (Document only_zero_log)) 739924) csv_path = None \<and>
   import_data_from_csv whole_number Written (mk_world (Some (Document only_zero_log)) 739924)
       csv_path
     = (mk_world (Some (Document only_zero_log)) 739924, False) \<and>
   files (world_with_csv bad_amount_text) csv_path = Some bad_amount_text \<and>
   bad_amount whole_number [(''Date'', Some ''2024-01-02''), (''Timestamp'', Some ''t2''),
               (''Amount (ml)'', Some ''abc''), (''Note'', Some '''')] \<and>
   import_data_from_csv whole_number Written (world_with_csv bad_amount_text) csv_path
     = (world_with_csv bad_amount_text, False) \<and>
   log_file (fst (import_data_from_csv whole_number Written (world_with_csv bad_amount_text)
                    csv_path))
     = Some (Document only_zero_log) \<and>
   files (world_with_csv missing_column_text) csv_path = Some missing_column_text \<and>
   missing_column [(''Date'', Some ''2024-01-01''), (''Timestamp'', Some ''t1''),
                   (''Note'', Some ''ok'')] \<and>
   import_data_from_csv whole_number Written (world_with_csv missing_column_text) csv_path
     = (world_with_csv missing_column_text, False) \<and>
   import_data_from_csv whole_number Open_Refused (world_with_csv one_row_text) csv_path
     = (world_with_csv one_row_text, False)"
proof -
  let ?bad = "[(''Date'', Some ''2024-01-02''), (''Timestamp'', Some ''t2''),
               (''Amount (ml)'', Some ''abc''), (''Note'', Some '''')]"
  let ?short = "[(''Date'', Some ''2024-01-01''), (''Timestamp'', Some ''t1''),
                 (''Note'', Some ''ok'')]"
  have f0: "files (mk_world (Some (Document only_zero_log)) 739924) csv_path = None"
    by (simp add: mk_world_def)
  have f1: "files (world_with_csv bad_amount_text) csv_path = Some bad_amount_text"
    and f2: "files (world_with_csv missing_column_text) csv_path = Some missing_column_text"
    by (simp_all add: world_with_csv_def)
  have r1: "?bad \<in> set (dict_reader
      [[''Date'', ''Timestamp'', ''Amount (ml)'', ''Note''],
       [''2024-01-01'', ''t1'', ''500'', ''ok''],
       [''2024-01-02'', ''t2'', ''abc'', '''']])"
    by (simp add: dict_reader_def dict_row_def)
  have r2: "?short \<in> set (dict_reader
      [[''Date'', ''Timestamp'', ''Note''], [''2024-01-01'', ''t1'', ''ok'']])"
    by (simp add: dict_reader_def dict_row_def)
  have b1: "bad_amount whole_number ?bad"
    by (simp add: bad_amount_def whole_number_def is_digit_def)
  have b2: "missing_column ?short"
    by (simp add: missing_column_def)
  have i0: "import_data_from_csv whole_number Written
       (mk_world (Some (Document only_zero_log)) 739924) csv_path
     = (mk_world (Some (Document only_zero_log)) 739924, False)"
    using import_failure_before_save
      [of "mk_world (Some (Document only_zero_log)) 739924" csv_path whole_number Written] f0
    by blast
  have i1: "import_data_from_csv whole_number Written (world_with_csv bad_amount_text) csv_path
     = (world_with_csv bad_amount_text, False)"
    using import_failure_before_save
      [of "world_with_csv bad_amount_text" csv_path whole_number Written]
      f1 bad_amount_records r1 b1
    by blast
  have i2: "import_data_from_csv whole_number Written (world_with_csv missing_column_text)
       csv_path
     = (world_with_csv missing_column_text, False)"
    using import_failure_before_save
      [of "world_with_csv missing_column_text" csv_path whole_number Written]
      f2 missing_column_records r2 b2
    by blast
  have i3: "import_data_from_csv whole_number Open_Refused (world_with_csv one_row_text) csv_path
     = (world_with_csv one_row_text, False)"
  proof -
    have "snd (import_data_from_csv whole_number Open_Refused (world_with_csv one_row_text)
                 csv_path) = False"
      by (simp add: import_data_from_csv_def world_with_csv_def load_water_log_def
            one_row_records one_row_import [simplified] save_water_log_in_def)
    then obtain w' where
      "import_data_from_csv whole_number Open_Refused (world_with_csv one_row_text) csv_path
         = (w', False)"
      by (metis prod.collapse)
    with import_failure_before_save
      [of "world_with_csv one_row_text" csv_path whole_number Open_Refused]
    show ?thesis by auto
  qed
  have l: "log_file (world_with_csv bad_amount_text) = Some (Document only_zero_log)"
    by (simp add: world_with_csv_def)
  show ?thesis
    using f0 f1 f2 b1 b2 i0 i1 i2 i3 l by simp
qed

text \<open>The claim as stated fails when the write of the save fails: the rows were all read,
  \<^verbatim>\<open>open\<close> has emptied the document, the import returns \<^verbatim>\<open>False\<close>, and the document is
  not what it was.\<close>

theorem import_failed_write_empties_document:
  "log_file (world_with_csv one_row_text) = Some (Document only_zero_log) \<and>
   import_data_from_csv whole_number (Write_Failed []) (world_with_csv one_row_text) csv_path =
     ((world_with_csv one_row_text)\<lparr>log_file := Some (Malformed [])\<rparr>, False) \<and>
   log_file (fst (import_data_from_csv whole_number (Write_Failed [])
                    (world_with_csv one_row_text) csv_path))
     \<noteq> log_file (world_with_csv one_row_text) \<and>
   load_water_log (fst (import_data_from_csv whole_number (Write_Failed [])
                          (world_with_csv one_row_text) csv_path)) = Inl JSONDecodeError \<and>
   import_data_from_csv whole_number Written (world_with_csv one_row_text) csv_path =
     ((world_with_csv one_row_text)
        \<lparr>log_file := Some (Document
           [(''2024-01-01'', [mk_entry 0]),
            (''2024-01-02'',
             [\<lparr>amount_ml = 500, timestamp = Some ''t1'', note_text = Some ''ok''\<rparr>])])\<rparr>,
      True)"
  by (simp add: import_data_from_csv_def world_with_csv_def load_water_log_def
        one_row_records one_row_import [simplified] save_water_log_in_def
        save_water_log_def save_water_log_states_def json_dump_def open_for_writing_def
        json_object_def json_key_def)

section \<open>Longest streak across a gap\<close>

text \<open>
  C2, at a log with two logged dates four days apart, both meeting the goal of 2000.
  \<^verbatim>\<open>get_longest_streak\<close> walks the sorted keys only, so the three days without a key do
  not end the run: it reports a streak of length 2 from 2024-01-01 to 2024-01-05. On the
  same log, with 2024-01-05 as today, \<^verbatim>\<open>get_streak_count\<close> walks the calendar and
  reports 1.
\<close>

theorem longest_streak_spans_gap:
  "get_longest_streak (mk_world (Some (Document gap_log)) 738890) 2000
     = Inr \<lparr>length_days = 2, start_date = Some ''2024-01-01'', end_date = Some ''2024-01-05''\<rparr> \<and>
   get_streak_count (mk_world (Some (Document gap_log)) 738890) 2000 = Inr 1"
  by code_simp

section \<open>Saving in place\<close>

text \<open>
  C10, as the code has it. \<^verbatim>\<open>save_water_log\<close> writes the document in place: opening the
  file for writing empties it, and until the dump is written the document is empty text,
  which \<^verbatim>\<open>load_water_log\<close> rejects. There is no temporary file and no rename. When
  \<^verbatim>\<open>save_water_log\<close> has returned, the document is the new log.
\<close>

theorem save_in_place:
  "save_water_log_states w data =
     [w\<lparr>log_file := Some (Malformed [])\<rparr>, w\<lparr>log_file := Some (Document data)\<rparr>] \<and>
   load_water_log (hd (save_water_log_states w data)) = Inl JSONDecodeError \<and>
   save_water_log w data = w\<lparr>log_file := Some (Document data)\<rparr> \<and>
   load_water_log (save_water_log w data) = Inr data"
  by (simp add: save_water_log_states_def save_water_log_def open_for_writing_def json_dump_def
        load_water_log_def)

text \<open>The claim as stated fails: while a log with one more entry is being saved over a
  log of one entry, there is a state in which the document is neither of the two.\<close>

theorem save_exposes_empty_document:
  "hd (save_water_log_states
         (mk_world (Some (Document [(''2024-01-01'', [mk_entry 500])])) 739924)
         [(''2024-01-01'', [mk_entry 500, mk_entry 700])])
     \<in> set (save_water_log_states
         (mk_world (Some (Document [(''2024-01-01'', [mk_entry 500])])) 739924)
         [(''2024-01-01'', [mk_entry 500, mk_entry 700])]) \<and>
   log_file (hd (save_water_log_states
         (mk_world (Some (Document [(''2024-01-01'', [mk_entry 500])])) 739924)
         [(''2024-01-01'', [mk_entry 500, mk_entry 700])]))
     \<noteq> Some (Document [(''2024-01-01'', [mk_entry 500])]) \<and>
   log_file (hd (save_water_log_states
         (mk_world (Some (Document [(''2024-01-01'', [mk_entry 500])])) 739924)
         [(''2024-01-01'', [mk_entry 500, mk_entry 700])]))
     \<noteq> Some (Document [(''2024-01-01'', [mk_entry 500, mk_entry 700])])"
  by (simp add: save_water_log_states_def open_for_writing_def json_dump_def mk_world_def)

section \<open>The totals of the last days\<close>

lemma days_back_ok:
  "\<forall>i \<in> set is. 1 \<le> t - i \<and> t - i \<le> max_ordinal \<Longrightarrow>
   days_back t is = Inr (map (\<lambda>i. isoformat (t - i)) is)"
  by (induction "is") (simp_all add: date_sub_def)

lemma days_back_overflow:
  "\<not> (1 \<le> t - i \<and> t - i \<le> max_ordinal) \<Longrightarrow> days_back t (i # is) = Inl OverflowError"
  by (auto simp: date_sub_def)

lemma rev_upto_back: "map (\<lambda>i. t - i) (rev [0..int k - 1]) = [t - int k + 1..t]"
proof (induction k)
  case 0
  then show ?case by simp
next
  case (Suc k)
  have "[0..int (Suc k) - 1] = [0..int k - 1] @ [int k]"
    using upto_rec2 [of 0 "int k"] by simp
  moreover have "[t - int (Suc k) + 1..t] = (t - int k) # [t - int k + 1..t]"
    using upto_rec1 [of "t - int k" t] by simp
  ultimately show ?case using Suc by simp
qed

lemma last_n_days_ok:
  assumes "load_water_log w = Inr data" and "today w \<le> max_ordinal"
    and "0 \<le> n" and "n \<le> today w"
  shows "get_last_n_days_totals w n =
           Inr (map (\<lambda>d. (isoformat d, sum_amounts (get_or_empty data (isoformat d))))
                  [today w - n + 1..today w])"
proof -
  have "\<forall>i \<in> set (rev [0..n - 1]). 1 \<le> today w - i \<and> today w - i \<le> max_ordinal"
    using assms by auto
  then have "days_back (today w) (rev [0..n - 1])
      = Inr (map (\<lambda>i. isoformat (today w - i)) (rev [0..n - 1]))"
    by (rule days_back_ok)
  moreover have "map (\<lambda>i. today w - i) (rev [0..n - 1]) = [today w - n + 1..today w]"
    using rev_upto_back [of "today w" "nat n"] assms(3) by simp
  then have "map (\<lambda>i. isoformat (today w - i)) (rev [0..n - 1])
      = map isoformat [today w - n + 1..today w]"
    by (metis (no_types, lifting) map_map o_def map_eq_conv)
  ultimately show ?thesis
    using assms(1) by (simp add: get_last_n_days_totals_def with_log_def o_def)
qed

lemma last_n_days_overflow:
  assumes "load_water_log w = Inr data" and "today w < n" and "1 \<le> n"
  shows "get_last_n_days_totals w n = Inl OverflowError"
proof -
  have "[0..n - 1] = [0..n - 1 - 1] @ [n - 1]"
    using upto_rec2 [of 0 "n - 1"] assms(3) by simp
  then have "rev [0..n - 1] = (n - 1) # rev [0..n - 1 - 1]" by simp
  moreover have "\<not> (1 \<le> today w - (n - 1) \<and> today w - (n - 1) \<le> max_ordinal)"
    using assms(2) by simp
  ultimately have "days_back (today w) (rev [0..n - 1]) = Inl OverflowError"
    using days_back_overflow by metis
  then show ?thesis using assms(1) by (simp add: get_last_n_days_totals_def with_log_def)
qed

lemma last_n_days_nonpositive:
  assumes "load_water_log w = Inr data" and "n \<le> 0"
  shows "get_last_n_days_totals w n = Inr []"
  using assms by (simp add: get_last_n_days_totals_def with_log_def)

text \<open>
  C4, as the code has it. For a count \<open>n\<close> from 0 up to the ordinal of today (so that the
  oldest of the days is not before 0001-01-01), \<^verbatim>\<open>get_last_n_days_totals\<close> returns exactly
  \<open>n\<close> rows: the dates are the \<open>n\<close> calendar days that end today, oldest first, and the
  total of a row is the sum of the amounts of that date, 0 for a date that is not in the log.
  A count of 0 or less gives no rows; a larger count raises \<^verbatim>\<open>OverflowError\<close>.
\<close>

theorem last_n_days_totals_rows:
  "load_water_log w = Inr data \<Longrightarrow> today w \<le> max_ordinal \<Longrightarrow>
   (0 \<le> n \<and> n \<le> today w \<longrightarrow>
      (\<exists>rows. get_last_n_days_totals w n = Inr rows \<and> length rows = nat n \<and>
         map fst rows = map isoformat [today w - n + 1..today w] \<and>
         map snd rows =
           map (\<lambda>d. case map_of data (isoformat d) of
                       None \<Rightarrow> 0 | Some entries \<Rightarrow> sum_amounts entries)
               [today w - n + 1..today w])) \<and>
   (n \<le> 0 \<longrightarrow> get_last_n_days_totals w n = Inr []) \<and>
   (1 \<le> n \<and> today w < n \<longrightarrow> get_last_n_days_totals w n = Inl OverflowError)"
proof (intro conjI impI)
  assume l: "load_water_log w = Inr data" and m: "today w \<le> max_ordinal"
  { assume "0 \<le> n \<and> n \<le> today w"
    then have r: "get_last_n_days_totals w n =
           Inr (map (\<lambda>d. (isoformat d, sum_amounts (get_or_empty data (isoformat d))))
                  [today w - n + 1..today w])"
      using last_n_days_ok [OF l m] by simp
    have t: "sum_amounts (get_or_empty data k) =
        (case map_of data k of None \<Rightarrow> 0 | Some entries \<Rightarrow> sum_amounts entries)" for k
      by (simp add: get_or_empty_def sum_amounts_def split: option.splits)
    show "\<exists>rows. get_last_n_days_totals w n = Inr rows \<and> length rows = nat n \<and>
         map fst rows = map isoformat [today w - n + 1..today w] \<and>
         map snd rows =
           map (\<lambda>d. case map_of data (isoformat d) of
                       None \<Rightarrow> 0 | Some entries \<Rightarrow> sum_amounts entries)
               [today w - n + 1..today w]"
      unfolding r by (simp add: o_def t) }
  { assume "n \<le> 0"
    then show "get_last_n_days_totals w n = Inr []"
      using last_n_days_nonpositive [OF l] by simp }
  { assume "1 \<le> n \<and> today w < n"
    then show "get_last_n_days_totals w n = Inl OverflowError"
      using last_n_days_overflow [OF l] by simp }
qed

text \<open>The claim as stated fails for a count that reaches back before the first date:
  on 2026-11-04, a million days.\<close>

theorem last_n_days_totals_overflow:
  "get_last_n_days_totals (mk_world None 739924) 1000000 = Inl OverflowError"
proof -
  have "load_water_log (mk_world None 739924) = Inr []"
    by (simp add: load_water_log_def mk_world_def)
  moreover have "today (mk_world None 739924) < 1000000"
    by (simp add: mk_world_def)
  ultimately show ?thesis
    using last_n_days_overflow [of "mk_world None 739924" "[]" 1000000] by simp
qed


theorem last_n_days_totals_rows_witness:
  "load_water_log hydrated_world = Inr [(''2026-11-04'', [mk_entry 1500, mk_entry 1007])] \<and>
   today hydrated_world \<le> max_ordinal \<and> (0::int) \<le> 3 \<and> 3 \<le> today hydrated_world \<and>
   get_last_n_days_totals hydrated_world 3 =
     Inr [(''2026-11-02'', 0), (''2026-11-03'', 0), (''2026-11-04'', 2507)]"
proof -
  have l: "load_water_log hydrated_world = Inr [(''2026-11-04'', [mk_entry 1500, mk_entry 1007])]"
    by (simp add: load_water_log_def hydrated_world_def mk_world_def)
  have t: "today hydrated_world = 739924"
    by (simp add: hydrated_world_def mk_world_def)
  have m: "today hydrated_world \<le> max_ordinal"
    by (simp add: t max_ordinal_def)
  have u: "[today hydrated_world - 3 + 1..today hydrated_world] = [739922, 739923, 739924]"
    by (simp add: t)
  from last_n_days_totals_rows [OF l m, of 3]
  obtain rows where r: "get_last_n_days_totals hydrated_world 3 = Inr rows"
    and f: "map fst rows = map isoformat [today hydrated_world - 3 + 1..today hydrated_world]"
    and s: "map snd rows =
           map (\<lambda>d. case map_of [(''2026-11-04'', [mk_entry 1500, mk_entry 1007])] (isoformat d) of
                       None \<Rightarrow> 0 | Some entries \<Rightarrow> sum_amounts entries)
               [today hydrated_world - 3 + 1..today hydrated_world]"
    using t by auto
  have f': "map fst rows = [''2026-11-02'', ''2026-11-03'', ''2026-11-04'']"
    using f unfolding u by (simp add: iso_739922 iso_739923 iso_739924)
  have s': "map snd rows = [0, 0, 2507]"
    using s unfolding u
    by (simp add: iso_739922 iso_739923 iso_739924 sum_amounts_def mk_entry_def)
  have "rows = zip (map fst rows) (map snd rows)" by (simp add: zip_map_fst_snd)
  then have "rows = [(''2026-11-02'', 0), (''2026-11-03'', 0), (''2026-11-04'', 2507)]"
    unfolding f' s' by simp
  then show ?thesis using l m t r by simp
qed

section \<open>Current streak\<close>

lemma streak_loop_eq:
  "\<forall>i \<in> set is. 1 \<le> t - i \<and> t - i \<le> max_ordinal \<Longrightarrow>
   streak_loop data goal t is s =
     Inr (s + length (takeWhile (\<lambda>i. meets data goal (t - i)) is))"
  by (induction "is" arbitrary: s) (simp_all add: date_sub_def meets_def)

lemma streak_count_eq:
  assumes "load_water_log w = Inr data" and "365 \<le> today w" and "today w \<le> max_ordinal"
  shows "get_streak_count w goal =
     Inr (length (takeWhile (\<lambda>i. meets data goal (today w - i)) [0..364]))"
proof -
  have "\<forall>i \<in> set [0..364]. 1 \<le> today w - i \<and> today w - i \<le> max_ordinal"
    using assms(2,3) by (auto simp del: upto_rec_numeral)
  from streak_loop_eq [OF this, of data goal 0] assms(1) show ?thesis
    by (simp add: get_streak_count_def with_log_def del: upto_rec_numeral)
qed

lemma map_add_upto: "map (\<lambda>i. i + c) [a..b] = [a + c..b + c]"
proof (induction "nat (b - a + 1)" arbitrary: a)
  case 0
  then show ?case by simp
next
  case (Suc n)
  then have ab: "a \<le> b" by linarith
  have "n = nat (b - (a + 1) + 1)" using Suc.hyps(2) by linarith
  from Suc.hyps(1) [OF this] have "map (\<lambda>i. i + c) [a + 1..b] = [a + 1 + c..b + c]" .
  then show ?case
    using upto_rec1 [OF ab] upto_rec1 [of "a + c" "b + c"] ab by (simp add: add.commute add.left_commute)
qed

lemma takeWhile_snoc_length:
  assumes "length (takeWhile Q (xs @ [x])) = k"
  shows "length (takeWhile Q xs) = min k (length xs)"
proof (cases "\<forall>y \<in> set xs. Q y")
  case True
  then have tw: "takeWhile Q xs = xs" by simp
  have "takeWhile Q (xs @ [x]) = xs @ takeWhile Q [x]"
    using True by (simp add: takeWhile_append2)
  then have "length xs \<le> k" using assms by auto
  then have "min k (length xs) = length xs" by simp
  then show ?thesis by (simp only: tw)
next
  case False
  then obtain y where "y \<in> set xs" "\<not> Q y" by blast
  then have "takeWhile Q (xs @ [x]) = takeWhile Q xs" by (simp add: takeWhile_append1)
  with assms length_takeWhile_le [of Q xs] show ?thesis by simp
qed

lemma streak_step_day:
  assumes "meets data goal t"
    and "length (takeWhile (\<lambda>i. meets data goal (t - 1 - i)) [0..364]) = k"
  shows "length (takeWhile (\<lambda>i. meets data goal (t - i)) [0..364]) = min (k + 1) 365"
proof -
  let ?Q = "\<lambda>i. meets data goal (t - 1 - i)"
  have a: "[0..364] = [0..363] @ [364::int]"
    using upto_rec2 [of 0 "364::int"] by (simp del: upto_rec_numeral)
  have b: "[0..364] = (0::int) # [1..364]"
    using upto_rec1 [of 0 "364::int"] by (simp del: upto_rec_numeral)
  have c: "[1..364] = map (\<lambda>i. i + 1) [0..363::int]"
    using map_add_upto [of 1 0 363] by (simp del: upto_rec_numeral)
  have "length (takeWhile ?Q [0..363]) = min k (length [0..363::int])"
    using assms(2) unfolding a by (rule takeWhile_snoc_length)
  then have d: "length (takeWhile ?Q [0..363]) = min k 364"
    by (simp del: upto_rec_numeral)
  have "takeWhile (\<lambda>i. meets data goal (t - i)) [1..364]
      = map (\<lambda>i. i + 1) (takeWhile ((\<lambda>i. meets data goal (t - i)) \<circ> (\<lambda>i. i + 1)) [0..363])"
    unfolding c by (rule takeWhile_map)
  moreover have "(\<lambda>i. meets data goal (t - i)) \<circ> (\<lambda>i. i + 1) = ?Q"
    by (auto simp: o_def algebra_simps)
  ultimately have "length (takeWhile (\<lambda>i. meets data goal (t - i)) [1..364]) = min k 364"
    using d by (simp del: upto_rec_numeral)
  then show ?thesis
    unfolding b using assms(1) by (simp del: upto_rec_numeral)
qed

text \<open>
  C3, as the code has it (for a today that is at least 365 days after 0001-01-01, so that
  the whole lookback window can be represented). \<^verbatim>\<open>get_streak_count\<close> walks back from
  today one calendar day at a time, over at most 365 days, and counts the days before the
  first one whose total is below the goal; a day without entries has total 0. So it returns
  0 when the total of today is below the goal. When the streak counted from yesterday is
  \<open>k\<close> and the total of today meets the goal, it returns \<open>k + 1\<close>, capped at the 365 days
  of the window.
\<close>

theorem current_streak_counts:
  "load_water_log w = Inr data \<Longrightarrow> 366 \<le> today w \<Longrightarrow> today w \<le> max_ordinal \<Longrightarrow>
   get_streak_count w goal =
     Inr (length (takeWhile
            (\<lambda>i. goal \<le> sum_amounts (get_or_empty data (isoformat (today w - i)))) [0..364])) \<and>
   (sum_amounts (get_or_empty data (isoformat (today w))) < goal \<longrightarrow>
      get_streak_count w goal = Inr 0) \<and>
   (\<forall>k. get_streak_count (w\<lparr>today := today w - 1\<rparr>) goal = Inr k \<and>
        goal \<le> sum_amounts (get_or_empty data (isoformat (today w))) \<longrightarrow>
        get_streak_count w goal = Inr (min (k + 1) 365))"
proof (intro conjI impI allI)
  assume l: "load_water_log w = Inr data" and lo: "366 \<le> today w" and hi: "today w \<le> max_ordinal"
  have c: "get_streak_count w goal =
     Inr (length (takeWhile (\<lambda>i. meets data goal (today w - i)) [0..364]))"
    using streak_count_eq [OF l _ hi] lo by simp
  then show "get_streak_count w goal =
     Inr (length (takeWhile
            (\<lambda>i. goal \<le> sum_amounts (get_or_empty data (isoformat (today w - i)))) [0..364]))"
    by (simp add: meets_def del: upto_rec_numeral)
  have b: "[0..364] = (0::int) # [1..364]"
    using upto_rec1 [of 0 "364::int"] by (simp del: upto_rec_numeral)
  { assume "sum_amounts (get_or_empty data (isoformat (today w))) < goal"
    then have "\<not> meets data goal (today w - 0)" by (simp add: meets_def)
    then show "get_streak_count w goal = Inr 0"
      unfolding c b by (simp del: upto_rec_numeral) }
  { fix k
    assume h: "get_streak_count (w\<lparr>today := today w - 1\<rparr>) goal = Inr k \<and>
        goal \<le> sum_amounts (get_or_empty data (isoformat (today w)))"
    have ly: "load_water_log (w\<lparr>today := today w - 1\<rparr>) = Inr data"
      using l by (simp add: load_water_log_def)
    have "get_streak_count (w\<lparr>today := today w - 1\<rparr>) goal =
        Inr (length (takeWhile (\<lambda>i. meets data goal (today w - 1 - i)) [0..364]))"
      using streak_count_eq [OF ly, of goal] lo hi by (simp del: upto_rec_numeral)
    with h have k: "length (takeWhile (\<lambda>i. meets data goal (today w - 1 - i)) [0..364]) = k"
      by simp
    from h have "meets data goal (today w)" by (simp add: meets_def)
    from streak_step_day [OF this k] show "get_streak_count w goal = Inr (min (k + 1) 365)"
      unfolding c by simp }
qed

lemma get_or_empty_map_const:
  "d \<in> set ds \<Longrightarrow> get_or_empty (map (\<lambda>d. (f d, v)) ds) (f d) = v"
  by (induction ds) (auto simp: get_or_empty_def)

lemma full_year_meets:
  "739559 \<le> d \<Longrightarrow> d \<le> 739924 \<Longrightarrow> meets full_year_log 2000 d"
  unfolding meets_def full_year_log_def
  by (subst get_or_empty_map_const) (simp_all add: sum_amounts_def mk_entry_def del: upto_rec_numeral)

lemma full_year_streak:
  assumes "739923 \<le> t" and "t \<le> 739924"
  shows "get_streak_count (mk_world (Some (Document full_year_log)) t) 2000 = Inr 365"
proof -
  let ?w = "mk_world (Some (Document full_year_log)) t"
  have l: "load_water_log ?w = Inr full_year_log"
    by (simp add: load_water_log_def mk_world_def)
  have t: "today ?w = t" by (simp add: mk_world_def)
  have "\<forall>i \<in> set [0..364]. meets full_year_log 2000 (t - i)"
    using assms by (auto intro!: full_year_meets simp del: upto_rec_numeral)
  then have tw: "takeWhile (\<lambda>i. meets full_year_log 2000 (t - i)) [0..364] = [0..364]"
    by (simp del: upto_rec_numeral)
  have "length [0..364::int] = 365"
    by (simp del: upto_rec_numeral)
  then have "length (takeWhile (\<lambda>i. meets full_year_log 2000 (t - i)) [0..364]) = 365"
    by (simp only: tw)
  moreover have "get_streak_count ?w 2000 =
      Inr (length (takeWhile (\<lambda>i. meets full_year_log 2000 (today ?w - i)) [0..364]))"
    using assms by (intro streak_count_eq [OF l]) (simp_all add: t max_ordinal_def)
  ultimately show ?thesis by (simp add: t del: upto_rec_numeral)
qed

text \<open>The claim as stated fails at the end of the window: in a log that meets the goal
  of 2000 on each of the last 366 days, the streak counted from yesterday is 365 and the
  current streak is 365 too, not 366.\<close>

theorem current_streak_capped:
  "get_streak_count (mk_world (Some (Document full_year_log)) 739923) 2000 = Inr 365 \<and>
   2000 \<le> sum_amounts (get_or_empty full_year_log (isoformat 739924)) \<and>
   get_streak_count (mk_world (Some (Document full_year_log)) 739924) 2000 = Inr 365"
  using full_year_streak [of 739923] full_year_streak [of 739924] full_year_meets [of 739924]
  by (simp add: meets_def)

lemma streak_log_yesterday:
  "get_streak_count (mk_world (Some (Document streak_log)) 739923) 2000 = Inr 1"
proof -
  let ?w = "mk_world (Some (Document streak_log)) 739923"
  have l: "load_water_log ?w = Inr streak_log"
    by (simp add: load_water_log_def mk_world_def)
  have t: "today ?w = 739923" by (simp add: mk_world_def)
  have u: "[0..364] = (0::int) # 1 # [2..364]"
    using upto_rec1 [of 0 "364::int"] upto_rec1 [of 1 "364::int"]
    by (simp del: upto_rec_numeral)
  have m0: "meets streak_log 2000 739923"
    by (simp add: meets_def iso_739923 streak_log_def get_or_empty_def sum_amounts_def
          mk_entry_def)
  have m1: "\<not> meets streak_log 2000 739922"
    by (simp add: meets_def iso_739922 streak_log_def get_or_empty_def sum_amounts_def
          mk_entry_def)
  have "get_streak_count ?w 2000 =
      Inr (length (takeWhile (\<lambda>i. meets streak_log 2000 (today ?w - i)) [0..364]))"
    by (intro streak_count_eq [OF l]) (simp_all add: t max_ordinal_def)
  then show ?thesis
    unfolding t u using m0 m1 by (simp del: upto_rec_numeral)
qed

theorem current_streak_counts_witness:
  "load_water_log (mk_world (Some (Document streak_log)) 739924) = Inr streak_log \<and>
   366 \<le> today (mk_world (Some (Document streak_log)) 739924) \<and>
   today (mk_world (Some (Document streak_log)) 739924) \<le> max_ordinal \<and>
   get_streak_count (mk_world (Some (Document streak_log)) 739923) 2000 = Inr 1 \<and>
   2000 \<le> sum_amounts (get_or_empty streak_log (isoformat 739924)) \<and>
   get_streak_count (mk_world (Some (Document streak_log)) 739924) 2000 = Inr 2 \<and>
   sum_amounts (get_or_empty streak_log (isoformat 739924)) < 3000 \<and>
   get_streak_count (mk_world (Some (Document streak_log)) 739924) 3000 = Inr 0"
proof -
  let ?w = "mk_world (Some (Document streak_log)) 739924"
  have l: "load_water_log ?w = Inr streak_log"
    by (simp add: load_water_log_def mk_world_def)
  have t: "today ?w = 739924" by (simp add: mk_world_def)
  have y: "?w\<lparr>today := 739923\<rparr> = mk_world (Some (Document streak_log)) 739923"
    by (simp add: mk_world_def)
  have tot: "sum_amounts (get_or_empty streak_log (isoformat 739924)) = 2100"
    by (simp add: iso_739924 streak_log_def get_or_empty_def sum_amounts_def mk_entry_def)
  have lo: "366 \<le> today ?w" and hi: "today ?w \<le> max_ordinal"
    by (simp_all add: t max_ordinal_def)
  have "get_streak_count (?w\<lparr>today := today ?w - 1\<rparr>) 2000 = Inr 1 \<and>
        2000 \<le> sum_amounts (get_or_empty streak_log (isoformat (today ?w))) \<longrightarrow>
        get_streak_count ?w 2000 = Inr (min (1 + 1) 365)"
    using current_streak_counts [OF l lo hi, of 2000] by blast
  then have two: "get_streak_count ?w 2000 = Inr 2"
    using streak_log_yesterday tot by (simp add: t y)
  have "sum_amounts (get_or_empty streak_log (isoformat (today ?w))) < 3000 \<longrightarrow>
        get_streak_count ?w 3000 = Inr 0"
    using current_streak_counts [OF l lo hi, of 3000] by blast
  then have none: "get_streak_count ?w 3000 = Inr 0"
    using tot by (simp add: t)
  show ?thesis
    using l lo hi streak_log_yesterday tot two none by simp
qed

section \<open>Monthly statistics\<close>

lemma update_new: "k \<notin> fst ` set al \<Longrightarrow> AList.update k v al = al @ [(k, v)]"
  by (induction al) auto

lemma fold_update_distinct:
  "distinct (map f xs) \<Longrightarrow> \<forall>x \<in> set xs. f x \<notin> fst ` set acc \<Longrightarrow>
   fold (\<lambda>x md. AList.update (f x) (g x) md) xs acc = acc @ map (\<lambda>x. (f x, g x)) xs"
proof (induction xs arbitrary: acc)
  case Nil
  then show ?case by simp
next
  case (Cons x xs)
  have u: "AList.update (f x) (g x) acc = acc @ [(f x, g x)]"
    using Cons.prems(2) by (simp add: update_new)
  have "f y \<noteq> f x" if "y \<in> set xs" for y
    using Cons.prems(1) that by (metis distinct.simps(2) image_eqI list.simps(9) set_map)
  then have "\<forall>y \<in> set xs. f y \<notin> fst ` set (acc @ [(f x, g x)])"
    using Cons.prems(2) by auto
  with Cons.IH [of "acc @ [(f x, g x)]"] Cons.prems(1) u show ?case by simp
qed

lemma zero_pad_days_distinct: "distinct (map (zero_pad 2) [1..31])"
  by code_simp

lemma month_key_distinct:
  assumes "n \<le> 31"
  shows "distinct (map (month_key year month) [1..n])"
proof -
  have "inj_on (zero_pad 2) (set [1..31])"
    using zero_pad_days_distinct by (simp only: distinct_map)
  then have "inj_on (zero_pad 2) {1..n}"
    using assms by (auto intro: inj_on_subset simp del: upto_rec_numeral)
  then have "inj_on (month_key year month) {1..n}"
    by (auto simp: inj_on_def month_key_def)
  then show ?thesis by (simp add: distinct_map)
qed

lemma monthrange_days:
  assumes "1 \<le> month" and "month \<le> 12"
  shows "monthrange year month =
     Inr (if month = 2 then (if isleap year then 29 else 28)
          else if month \<in> {4, 6, 9, 11} then 30 else 31)"
proof -
  from assms have "month = 1 \<or> month = 2 \<or> month = 3 \<or> month = 4 \<or> month = 5 \<or> month = 6 \<or>
      month = 7 \<or> month = 8 \<or> month = 9 \<or> month = 10 \<or> month = 11 \<or> month = 12"
    by arith
  then show ?thesis
    by (elim disjE) (simp_all add: monthrange_def mdays_def)
qed

lemma monthly_data_eq:
  assumes "load_water_log w = Inr data" and "1 \<le> month" and "month \<le> 12"
  shows "\<exists>n. monthrange year month = Inr n \<and> 28 \<le> n \<and> n \<le> 31 \<and>
     get_monthly_data w year month =
       Inr (map (\<lambda>day. (month_key year month day,
                         sum_amounts (get_or_empty data (month_key year month day)))) [1..n])"
proof -
  let ?n = "if month = 2 then (if isleap year then 29 else 28)
          else if month \<in> {4, 6, 9, 11} then 30 else (31::int)"
  have m: "monthrange year month = Inr ?n" by (rule monthrange_days [OF assms(2,3)])
  have b: "28 \<le> ?n" "?n \<le> 31" by auto
  have "month_data_loop data year month [1..?n] =
      [] @ map (\<lambda>day. (month_key year month day,
                         sum_amounts (get_or_empty data (month_key year month day)))) [1..?n]"
    unfolding month_data_loop_def
    by (rule fold_update_distinct) (simp_all add: month_key_distinct [OF b(2)] del: upto_rec_numeral)
  then show ?thesis
    using m b assms(1) by (simp add: get_monthly_data_def with_log_def del: upto_rec_numeral)
qed

lemma max_by_snd_props:
  "max_by_snd b xs \<in> set (b # xs) \<and> (\<forall>x \<in> set (b # xs). snd x \<le> snd (max_by_snd b xs))"
proof (induction xs arbitrary: b)
  case Nil
  then show ?case by simp
next
  case (Cons x xs)
  from Cons.IH [of "if snd b < snd x then x else b"] show ?case
    by (auto split: if_splits)
qed

lemma min_by_snd_props:
  "min_by_snd b xs \<in> set (b # xs) \<and> (\<forall>x \<in> set (b # xs). snd (min_by_snd b xs) \<le> snd x)"
proof (induction xs arbitrary: b)
  case Nil
  then show ?case by simp
next
  case (Cons x xs)
  from Cons.IH [of "if snd x < snd b then x else b"] show ?case
    by (auto split: if_splits)
qed

lemma monthly_statistics_positive:
  assumes "\<exists>x \<in> set md. 0 < snd x"
  shows "\<exists>b wd. month_best_day (monthly_statistics_of md) = Some b \<and> b \<in> set md \<and> 0 < snd b \<and>
           (\<forall>x \<in> set md. snd x \<le> snd b) \<and>
           month_worst_day (monthly_statistics_of md) = Some wd \<and> wd \<in> set md \<and> 0 < snd wd \<and>
           (\<forall>x \<in> set md. 0 < snd x \<longrightarrow> snd wd \<le> snd x)"
proof -
  from assms obtain p where p: "p \<in> set md" "0 < snd p" by blast
  then have t: "filter (\<lambda>amount. 0 < amount) (map snd md) \<noteq> []"
    by (auto simp: filter_empty_conv)
  from p obtain x xs where md: "md = x # xs" by (cases md) auto
  let ?pos = "filter (\<lambda>item. 0 < snd item) md"
  from p have "p \<in> set ?pos" by simp
  then obtain y ys where pos: "?pos = y # ys" by (cases ?pos) auto
  have best: "month_best_day (monthly_statistics_of md) = Some (max_by_snd x xs)"
    using t md by (simp add: monthly_statistics_of_def Let_def)
  have worst: "month_worst_day (monthly_statistics_of md) = Some (min_by_snd y ys)"
    using t pos by (simp add: monthly_statistics_of_def Let_def)
  have bp: "max_by_snd x xs \<in> set md" "\<forall>z \<in> set md. snd z \<le> snd (max_by_snd x xs)"
    using max_by_snd_props [of x xs] md by auto
  have wp: "min_by_snd y ys \<in> set ?pos" "\<forall>z \<in> set ?pos. snd (min_by_snd y ys) \<le> snd z"
    using min_by_snd_props [of y ys] pos by auto
  from bp(2) p have "0 < snd (max_by_snd x xs)" by force
  moreover from wp(1) have "min_by_snd y ys \<in> set md" "0 < snd (min_by_snd y ys)" by auto
  moreover from wp(2) have "\<forall>z \<in> set md. 0 < snd z \<longrightarrow> snd (min_by_snd y ys) \<le> snd z" by auto
  ultimately show ?thesis using best worst bp by blast
qed

lemma monthly_statistics_none:
  assumes "\<forall>x \<in> set md. snd x \<le> 0"
  shows "month_best_day (monthly_statistics_of md) = None \<and>
         month_worst_day (monthly_statistics_of md) = None \<and>
         month_total (monthly_statistics_of md) = 0 \<and>
         month_average (monthly_statistics_of md) = 0"
proof -
  from assms have "filter (\<lambda>amount. 0 < amount) (map snd md) = []"
    by (auto simp: filter_empty_conv)
  then show ?thesis by (simp add: monthly_statistics_of_def Let_def)
qed

text \<open>For a year of four digits or more the key that \<^verbatim>\<open>get_monthly_data\<close> formats is
  the ISO form of the date, the form of the keys of the log.\<close>

lemma str_nat_length: "10 ^ k \<le> n \<Longrightarrow> k < length (str_nat n)"
proof (induction k arbitrary: n)
  case 0
  then show ?case by (subst str_nat.simps) simp
next
  case (Suc k)
  then have "10 ^ k \<le> n div 10" by (simp add: less_eq_div_iff_mult_less_eq mult.commute)
  from Suc.IH [OF this] have "k < length (str_nat (n div 10))" .
  moreover from Suc.prems have "\<not> n < 10"
    by (metis One_nat_def leD le_trans one_le_numeral one_le_power power_Suc2 mult.commute
        mult_le_mono1 mult_1 nat_mult_1)
  ultimately show ?case by (subst str_nat.simps) simp
qed

lemma month_key_four_digit_year:
  assumes "1000 \<le> year"
  shows "month_key year month day = zero_pad 4 year @ ''-'' @ zero_pad 2 month @ ''-'' @ zero_pad 2 day"
proof -
  have "(10::nat) ^ 3 \<le> nat year" using assms by simp
  then have "3 < length (str_nat (nat year))" by (rule str_nat_length)
  then show ?thesis using assms by (simp add: month_key_def str_int_def zero_pad_def)
qed

text \<open>
  The keys that the code formats. For a month from 1 to 12, \<^verbatim>\<open>get_monthly_data\<close> has one
  row for every calendar day of the month, in order, the number of days being that of the
  calendar: 29 for February in a leap year and 28 otherwise, 30 for April, June, September
  and November, 31 for the other months. The total of a row is that of the log under the
  key \<^verbatim>\<open>f"{year}-{month:02d}-{day:02d}"\<close>. In \<^verbatim>\<open>get_monthly_statistics\<close> the best day has
  the largest and the worst day the smallest total among the rows with a positive total;
  when no row has a positive total, best and worst day are \<^verbatim>\<open>None\<close> and total and average
  are 0.
\<close>

lemma monthly_statistics_rows:
  "load_water_log w = Inr data \<Longrightarrow> 1 \<le> month \<Longrightarrow> month \<le> 12 \<Longrightarrow>
   \<exists>md st.
     get_monthly_data w year month = Inr md \<and>
     get_monthly_statistics w year month = Inr st \<and>
     md = map (\<lambda>day. (month_key year month day,
                       sum_amounts (get_or_empty data (month_key year month day))))
              [1..int (length md)] \<and>
     int (length md) =
       (if month = 2
        then (if year mod 4 = 0 \<and> (year mod 100 \<noteq> 0 \<or> year mod 400 = 0) then 29 else 28)
        else if month \<in> {4, 6, 9, 11} then 30 else 31) \<and>
     ((\<exists>x \<in> set md. 0 < snd x) \<longrightarrow>
        (\<exists>b wd. month_best_day st = Some b \<and> b \<in> set md \<and> 0 < snd b \<and>
           (\<forall>x \<in> set md. snd x \<le> snd b) \<and>
           month_worst_day st = Some wd \<and> wd \<in> set md \<and> 0 < snd wd \<and>
           (\<forall>x \<in> set md. 0 < snd x \<longrightarrow> snd wd \<le> snd x))) \<and>
     ((\<forall>x \<in> set md. snd x \<le> 0) \<longrightarrow>
        month_best_day st = None \<and> month_worst_day st = None \<and>
        month_total st = 0 \<and> month_average st = 0)"
proof -
  assume l: "load_water_log w = Inr data" and m: "1 \<le> month" "month \<le> 12"
  let ?row = "\<lambda>day. (month_key year month day,
                       sum_amounts (get_or_empty data (month_key year month day)))"
  from monthly_data_eq [OF l m, of year] obtain n where
    n: "monthrange year month = Inr n" "28 \<le> n" "n \<le> 31"
    and d: "get_monthly_data w year month = Inr (map ?row [1..n])" by blast
  let ?md = "map ?row [1..n]"
  have len: "int (length ?md) = n" using n(2) by simp
  have "n = (if month = 2 then (if isleap year then 29 else 28)
          else if month \<in> {4, 6, 9, 11} then 30 else 31)"
    using n(1) monthrange_days [OF m, of year] by simp
  then have cnt: "int (length ?md) =
       (if month = 2
        then (if year mod 4 = 0 \<and> (year mod 100 \<noteq> 0 \<or> year mod 400 = 0) then 29 else 28)
        else if month \<in> {4, 6, 9, 11} then 30 else 31)"
    unfolding len by (simp add: isleap_def)
  have s: "get_monthly_statistics w year month = Inr (monthly_statistics_of ?md)"
    using d by (simp add: get_monthly_statistics_def)
  have shape: "?md = map ?row [1..int (length ?md)]"
    unfolding len ..
  show ?thesis
    using d s shape cnt monthly_statistics_positive [of ?md] monthly_statistics_none [of ?md]
    by blast
qed

lemma february_2024:
  "get_monthly_statistics (mk_world (Some (Document february_log)) 739924) 2024 2 =
     Inr \<lparr>month_total = 4000, month_average = 2000,
          month_best_day = Some (''2024-02-29'', 2500),
          month_worst_day = Some (''2024-02-10'', 1500),
          month_days_logged = 2, days_in_month = Some 29\<rparr>"
  by code_simp

text \<open>
  C5. The year 999. The entry of 1 January 999 is logged under the ISO date
  \<^verbatim>\<open>0999-01-01\<close>, the key that \<^verbatim>\<open>date.isoformat\<close> gives and the only spelling that
  \<^verbatim>\<open>log_water_intake_for_date\<close> accepts. \<^verbatim>\<open>get_monthly_data\<close> formats the year without
  padding and looks under \<^verbatim>\<open>999-01-01\<close>: all 31 rows of January 999 have the total 0,
  and \<^verbatim>\<open>get_monthly_statistics\<close> returns its result for a month without a positive day,
  although 1 January 999 has a total of 500.
\<close>

theorem monthly_statistics_year_999:
  "isoformat 364513 = ''0999-01-01'' \<and>
   sum_amounts (get_or_empty year_999_log (isoformat 364513)) = 500 \<and>
   get_monthly_data (mk_world (Some (Document year_999_log)) 739924) 999 1 =
     Inr (map (\<lambda>day. (''999-01-'' @ zero_pad 2 day, 0)) [1..31]) \<and>
   get_monthly_statistics (mk_world (Some (Document year_999_log)) 739924) 999 1 =
     Inr \<lparr>month_total = 0, month_average = 0, month_best_day = None, month_worst_day = None,
          month_days_logged = 0, days_in_month = None\<rparr>"
  by code_simp

section \<open>Export and import of a note\<close>

text \<open>The rows first. Where \<open>float_of\<close> reads every amount that the export writes as
  the number that was written, importing the rows that the export writes of a log with
  distinct keys, into an empty log, gives \<open>reimported\<close>: every date keeps its entries in
  order, with their amounts, and so its total; an absent note comes back as the empty
  string. This is about the rows, as the reader would give them if the text of every field
  came back as it was written. The reading \<open>whole_number\<close> is one that reads every
  amount back.\<close>

lemma digit_value_digit_char: "d < 10 \<Longrightarrow> digit_value (digit_char d) = d"
proof -
  assume "d < 10"
  then have "d = 0 \<or> d = 1 \<or> d = 2 \<or> d = 3 \<or> d = 4 \<or> d = 5 \<or> d = 6 \<or> d = 7 \<or> d = 8 \<or> d = 9"
    by arith
  then show ?thesis
    by (elim disjE) (simp_all add: digit_value_def digit_char_def)
qed

lemma is_digit_digit_char: "d < 10 \<Longrightarrow> is_digit (digit_char d)"
proof -
  assume "d < 10"
  then have "d = 0 \<or> d = 1 \<or> d = 2 \<or> d = 3 \<or> d = 4 \<or> d = 5 \<or> d = 6 \<or> d = 7 \<or> d = 8 \<or> d = 9"
    by arith
  then show ?thesis
    by (elim disjE) (simp_all add: is_digit_def digit_char_def)
qed

lemma digits_value_snoc: "digits_value (s @ [c]) = 10 * digits_value s + digit_value c"
  by (simp add: digits_value_def)

lemma str_nat_digits:
  "str_nat n \<noteq> [] \<and> list_all is_digit (str_nat n) \<and> digits_value (str_nat n) = n"
proof (induction n rule: str_nat.induct)
  case (1 n)
  show ?case
  proof (cases "n < 10")
    case True
    then show ?thesis
      by (subst (1 2 3) str_nat.simps)
         (simp add: is_digit_digit_char digit_value_digit_char digits_value_def)
  next
    case False
    with 1 have ih: "str_nat (n div 10) \<noteq> []" "list_all is_digit (str_nat (n div 10))"
      "digits_value (str_nat (n div 10)) = n div 10" by simp_all
    have s: "str_nat n = str_nat (n div 10) @ [digit_char (n mod 10)]"
      using False by (subst str_nat.simps) simp
    show ?thesis
      unfolding s using ih
      by (simp add: digits_value_snoc is_digit_digit_char digit_value_digit_char)
  qed
qed

lemma is_digit_not_sign: "is_digit c \<Longrightarrow> c \<noteq> CHR ''-'' \<and> c \<noteq> CHR ''+''"
  by (auto simp: is_digit_def)

lemma whole_number_str_int: "whole_number (str_int a) = Some a"
proof -
  have hd_digit: "hd (str_nat n) \<noteq> CHR ''-'' \<and> hd (str_nat n) \<noteq> CHR ''+''" for n
    using str_nat_digits [of n] is_digit_not_sign [of "hd (str_nat n)"]
    by (cases "str_nat n") auto
  show ?thesis
  proof (cases "a < 0")
    case True
    then show ?thesis
      using str_nat_digits [of "nat (- a)"]
      by (simp add: whole_number_def str_int_def)
  next
    case False
    then show ?thesis
      using str_nat_digits [of "nat a"] hd_digit [of "nat a"]
      by (simp add: whole_number_def str_int_def Let_def)
  qed
qed


lemma export_rows_eq:
  "export_rows data =
     concat (map (\<lambda>k. map (export_row k) (get_or_empty data k)) (sort (map fst data)))"
  by (simp add: export_rows_def export_row_def [abs_def])

lemma dict_row_export_row:
  "dict_row csv_header (export_row d e) =
     [(''Date'', Some d), (''Timestamp'', Some (opt_text (timestamp e))),
      (''Amount (ml)'', Some (str_int (amount_ml e))), (''Note'', Some (opt_text (note_text e)))]"
  by (simp add: dict_row_def csv_header_def export_row_def)

lemma map_of_snoc_new: "k \<notin> fst ` set acc \<Longrightarrow> map_of (acc @ [(k, v)]) k = Some v"
  by (induction acc) auto

lemma update_snoc_same:
  "k \<notin> fst ` set acc \<Longrightarrow> AList.update k v (acc @ [(k, u)]) = acc @ [(k, v)]"
  by (induction acc) auto

lemma update_absent: "k \<notin> fst ` set acc \<Longrightarrow> AList.update k v acc = acc @ [(k, v)]"
  by (induction acc) auto

lemma map_of_absent: "k \<notin> fst ` set acc \<Longrightarrow> map_of acc k = None"
  by (simp add: map_of_eq_None_iff)

lemma import_row_present:
  assumes "Some k \<notin> fst ` set acc" and "float_of (str_int (amount_ml e)) = Some (amount_ml e)"
  shows "import_row float_of (dict_row csv_header (export_row k e)) (acc @ [(Some k, xs)]) =
           Inr (acc @ [(Some k, xs @ [as_imported e])])"
  using assms
  by (simp add: dict_row_export_row import_row_def map_add_def map_of_absent
        update_snoc_same as_imported_def Let_def)

lemma import_row_absent:
  assumes "Some k \<notin> fst ` set acc" and "float_of (str_int (amount_ml e)) = Some (amount_ml e)"
  shows "import_row float_of (dict_row csv_header (export_row k e)) acc =
           Inr (acc @ [(Some k, [as_imported e])])"
  using assms
  by (simp add: dict_row_export_row import_row_def map_of_absent
        map_add_def update_absent update_snoc_same as_imported_def Let_def)

lemma import_rows_present:
  "Some k \<notin> fst ` set acc \<Longrightarrow>
   \<forall>e \<in> set es. float_of (str_int (amount_ml e)) = Some (amount_ml e) \<Longrightarrow>
   import_rows float_of (map (\<lambda>e. dict_row csv_header (export_row k e)) es)
       (acc @ [(Some k, xs)]) =
     Inr (acc @ [(Some k, xs @ map as_imported es)])"
proof (induction es arbitrary: xs)
  case Nil
  then show ?case by simp
next
  case (Cons e es)
  from Cons.prems(2) have e: "float_of (str_int (amount_ml e)) = Some (amount_ml e)"
    and es: "\<forall>e \<in> set es. float_of (str_int (amount_ml e)) = Some (amount_ml e)" by simp_all
  from Cons.IH [OF Cons.prems(1) es, of "xs @ [as_imported e]"] show ?case
    by (simp add: import_row_present [of k acc float_of e, OF Cons.prems(1) e])
qed

lemma import_rows_absent:
  assumes "Some k \<notin> fst ` set acc"
    and "\<forall>e \<in> set es. float_of (str_int (amount_ml e)) = Some (amount_ml e)"
  shows "import_rows float_of (map (\<lambda>e. dict_row csv_header (export_row k e)) es) acc =
           Inr (if es = [] then acc else acc @ [(Some k, map as_imported es)])"
proof (cases es)
  case Nil
  then show ?thesis by simp
next
  case (Cons e es')
  from assms(2) Cons have e: "float_of (str_int (amount_ml e)) = Some (amount_ml e)"
    and es: "\<forall>e \<in> set es'. float_of (str_int (amount_ml e)) = Some (amount_ml e)" by simp_all
  from import_rows_present [OF assms(1) es, of "[as_imported e]"] show ?thesis
    unfolding Cons by (simp add: import_row_absent [of k acc float_of e, OF assms(1) e])
qed

lemma import_rows_append:
  "import_rows float_of (rs1 @ rs2) acc =
     (case import_rows float_of rs1 acc of Inl e \<Rightarrow> Inl e | Inr d \<Rightarrow> import_rows float_of rs2 d)"
  by (induction rs1 arbitrary: acc) (auto split: sum.splits)

lemma import_rows_groups:
  "distinct ks \<Longrightarrow> Some ` set ks \<inter> fst ` set acc = {} \<Longrightarrow>
   \<forall>k \<in> set ks. \<forall>e \<in> set (f k). float_of (str_int (amount_ml e)) = Some (amount_ml e) \<Longrightarrow>
   import_rows float_of
     (concat (map (\<lambda>k. map (\<lambda>e. dict_row csv_header (export_row k e)) (f k)) ks)) acc =
     Inr (acc @ map (\<lambda>k. (Some k, map as_imported (f k))) (filter (\<lambda>k. f k \<noteq> []) ks))"
proof (induction ks arbitrary: acc)
  case Nil
  then show ?case by simp
next
  case (Cons k ks)
  have k: "Some k \<notin> fst ` set acc" using Cons.prems(2) by auto
  have fk: "\<forall>e \<in> set (f k). float_of (str_int (amount_ml e)) = Some (amount_ml e)"
    and fks: "\<forall>k \<in> set ks. \<forall>e \<in> set (f k). float_of (str_int (amount_ml e)) = Some (amount_ml e)"
    using Cons.prems(3) by simp_all
  let ?acc' = "if f k = [] then acc else acc @ [(Some k, map as_imported (f k))]"
  have d: "distinct ks" using Cons.prems(1) by simp
  have "Some ` set ks \<inter> fst ` set ?acc' = {}" using Cons.prems(1,2) by auto
  from Cons.IH [OF d this fks] show ?case
    by (simp add: import_rows_append import_rows_absent [OF k fk])
qed

lemma dict_reader_export:
  "dict_reader (csv_header # export_rows data) =
     concat (map (\<lambda>k. map (\<lambda>e. dict_row csv_header (export_row k e)) (get_or_empty data k))
               (sort (map fst data)))"
proof -
  have "filter (\<lambda>row. row \<noteq> []) (export_rows data) = export_rows data"
    by (auto simp: export_rows_eq export_row_def filter_id_conv)
  then show ?thesis
    by (simp add: dict_reader_def export_rows_eq map_concat o_def)
qed

lemma import_of_export_rows:
  assumes "distinct (map fst data)"
    and "\<forall>p \<in> set data. \<forall>e \<in> set (snd p). float_of (str_int (amount_ml e)) = Some (amount_ml e)"
  shows "import_rows float_of (dict_reader (csv_header # export_rows data)) [] =
           Inr (map (\<lambda>kv. (Some (fst kv), snd kv)) (reimported data))"
proof -
  have d: "distinct (sort (map fst data))" using assms(1) by simp
  have a: "\<forall>k \<in> set (sort (map fst data)). \<forall>e \<in> set (get_or_empty data k).
             float_of (str_int (amount_ml e)) = Some (amount_ml e)"
  proof (intro ballI)
    fix k e
    assume "e \<in> set (get_or_empty data k)"
    then obtain es where "map_of data k = Some es" "e \<in> set es"
      by (cases "map_of data k") (auto simp: get_or_empty_def)
    then have "(k, es) \<in> set data" by (simp add: map_of_SomeD)
    with assms(2) \<open>e \<in> set es\<close> show "float_of (str_int (amount_ml e)) = Some (amount_ml e)"
      by fastforce
  qed
  from import_rows_groups [OF d _ a, of "[]"] show ?thesis
    by (simp add: dict_reader_export reimported_def o_def)
qed

text \<open>What \<^verbatim>\<open>json.dump\<close> writes of a dict whose keys are distinct strings is read back as
  that dict.\<close>

lemma json_object_append:
  "json_object (xs @ ys) =
     fold (\<lambda>kv d. AList.update (json_key (fst kv)) (snd kv) d) ys (json_object xs)"
  by (simp add: json_object_def)

lemma json_object_strings:
  "distinct (map fst d) \<Longrightarrow> json_object (map (\<lambda>kv. (Some (fst kv), snd kv)) d) = d"
proof (induction d rule: rev_induct)
  case Nil
  then show ?case by (simp add: json_object_def)
next
  case (snoc x xs)
  then have "fst x \<notin> fst ` set xs" and "distinct (map fst xs)" by auto
  with snoc.IH show ?case
    by (simp add: json_object_append json_key_def update_absent)
qed

lemma reimported_distinct: "distinct (map fst data) \<Longrightarrow> distinct (map fst (reimported data))"
  by (simp add: reimported_def o_def distinct_map_filter)

text \<open>The import of the rows of an export, saved: the document is \<open>reimported\<close>.\<close>

lemma saved_import_of_export_rows:
  assumes "distinct (map fst data)"
    and "\<forall>p \<in> set data. \<forall>e \<in> set (snd p). float_of (str_int (amount_ml e)) = Some (amount_ml e)"
  shows "map_sum id json_object
           (import_rows float_of (dict_reader (csv_header # export_rows data)) []) =
         Inr (reimported data)"
  by (simp add: import_of_export_rows [OF assms] json_object_strings
        reimported_distinct [OF assms(1)])

lemma map_of_map_key:
  "map_of (map (\<lambda>k. (k, f k)) ks) d = (if d \<in> set ks then Some (f d) else None)"
  by (induction ks) auto

lemma sum_amounts_as_imported: "sum_amounts (map as_imported es) = sum_amounts es"
  by (simp add: sum_amounts_def as_imported_def o_def)

lemma reimported_entries:
  "get_or_empty (reimported data) d = map as_imported (get_or_empty data d)"
proof (cases "map_of data d")
  case None
  then have "d \<notin> set (map fst data)" by (simp add: map_of_eq_None_iff)
  then show ?thesis
    using None by (simp add: reimported_def get_or_empty_def map_of_map_key)
next
  case (Some es)
  then have "d \<in> set (map fst data)" by (metis map_of_eq_None_iff option.distinct(1) set_map)
  then show ?thesis
    using Some by (auto simp: reimported_def get_or_empty_def map_of_map_key)
qed

lemma reimported_totals:
  "sum_amounts (get_or_empty (reimported data) d) = sum_amounts (get_or_empty data d)"
  by (simp add: reimported_entries sum_amounts_as_imported)

lemma reimported_notes:
  "map note_text (get_or_empty (reimported data) d) =
     map (\<lambda>e. Some (opt_text (note_text e))) (get_or_empty data d)"
  by (simp add: reimported_entries as_imported_def o_def)

subsection \<open>The text between export and import\<close>

lemma str_int_500: "str_int 500 = ''500''"
  by code_simp

lemma cr_note_export: "export_text cr_note_log = cr_note_text"
  by (simp add: export_text_def export_rows_def cr_note_log_def cr_note_text_def csv_header_def
        writerow_def quote_field_def needs_quotes_def get_or_empty_def opt_text_def str_int_500
        CR_def LF_def quotechar_def delimiter_def)

lemma cr_note_records:
  "csv_records (split_lines [] (universal_newlines cr_note_text)) parse_reset =
     Inr [[''Date'', ''Timestamp'', ''Amount (ml)'', ''Note''],
          [''2024-01-01'', ''2024-01-01T08:00:00'', ''500'', ''after'' @ [LF] @ ''run'']]"
  by (simp add: cr_note_text_def csv_eval)

lemma cr_note_import:
  "float_of ''500'' = Some 500 \<Longrightarrow>
   import_rows float_of
     (dict_reader [[''Date'', ''Timestamp'', ''Amount (ml)'', ''Note''],
          [''2024-01-01'', ''2024-01-01T08:00:00'', ''500'', ''after'' @ [LF] @ ''run'']]) []
   = Inr (map (\<lambda>kv. (Some (fst kv), snd kv)) lf_note_log)"
  by (simp add: dict_reader_def dict_row_def import_row_def lf_note_log_def LF_def)

lemma lf_note_saved: "json_object (map (\<lambda>kv. (Some (fst kv), snd kv)) lf_note_log) = lf_note_log"
  by (simp add: json_object_def json_key_def lf_note_log_def)

text \<open>
  C1, at a log with one entry whose note holds a carriage return. The export writes the
  note as a quoted field with the carriage return in it; the import opens the file without
  \<^verbatim>\<open>newline=''\<close>, so the carriage return reaches the reader as a line feed. Imported into
  an empty log, with a \<^verbatim>\<open>float\<close> that reads \<^verbatim>\<open>500\<close> as 500 and a write that succeeds, the
  file gives a log with the same date, timestamp and amount, and a note that is not the
  note that was exported.
\<close>

theorem note_with_carriage_return_changes:
  "float_of ''500'' = Some 500 \<Longrightarrow>
   export_data_to_csv (mk_world (Some (Document cr_note_log)) 739924) csv_path =
     ((mk_world (Some (Document cr_note_log)) 739924)\<lparr>files := [csv_path \<mapsto> cr_note_text]\<rparr>, True) \<and>
   import_data_from_csv float_of Written
     ((mk_world None 739924)\<lparr>files := [csv_path \<mapsto> cr_note_text]\<rparr>) csv_path =
     ((mk_world (Some (Document lf_note_log)) 739924)\<lparr>files := [csv_path \<mapsto> cr_note_text]\<rparr>, True) \<and>
   lf_note_log \<noteq> cr_note_log \<and>
   map (\<lambda>p. (fst p, map note_text (snd p))) lf_note_log =
     [(''2024-01-01'', [Some (''after'' @ [LF] @ ''run'')])] \<and>
   map (\<lambda>p. (fst p, map note_text (snd p))) cr_note_log =
     [(''2024-01-01'', [Some (''after'' @ [CR] @ ''run'')])]"
proof -
  assume f: "float_of ''500'' = Some 500"
  have e: "export_data_to_csv (mk_world (Some (Document cr_note_log)) 739924) csv_path =
     ((mk_world (Some (Document cr_note_log)) 739924)\<lparr>files := [csv_path \<mapsto> cr_note_text]\<rparr>, True)"
    by (simp add: export_data_to_csv_def load_water_log_def mk_world_def cr_note_export)
  have i: "import_data_from_csv float_of Written
     ((mk_world None 739924)\<lparr>files := [csv_path \<mapsto> cr_note_text]\<rparr>) csv_path =
     ((mk_world (Some (Document lf_note_log)) 739924)\<lparr>files := [csv_path \<mapsto> cr_note_text]\<rparr>, True)"
    by (simp add: import_data_from_csv_def load_water_log_def mk_world_def cr_note_records
        cr_note_import [of float_of, OF f, simplified] lf_note_saved save_water_log_in_def
        save_water_log_def save_water_log_states_def json_dump_def open_for_writing_def)
  have n: "lf_note_log \<noteq> cr_note_log"
    by (simp add: lf_note_log_def cr_note_log_def CR_def LF_def)
  show ?thesis
    using e i n by (simp add: lf_note_log_def cr_note_log_def)
qed

theorem note_with_carriage_return_changes_witness:
  "whole_number ''500'' = Some 500 \<and>
   export_data_to_csv (mk_world (Some (Document cr_note_log)) 739924) csv_path =
     ((mk_world (Some (Document cr_note_log)) 739924)\<lparr>files := [csv_path \<mapsto> cr_note_text]\<rparr>, True) \<and>
   import_data_from_csv whole_number Written
     ((mk_world None 739924)\<lparr>files := [csv_path \<mapsto> cr_note_text]\<rparr>) csv_path =
     ((mk_world (Some (Document lf_note_log)) 739924)\<lparr>files := [csv_path \<mapsto> cr_note_text]\<rparr>, True) \<and>
   lf_note_log \<noteq> cr_note_log \<and>
   map (\<lambda>p. (fst p, map note_text (snd p))) lf_note_log =
     [(''2024-01-01'', [Some (''after'' @ [LF] @ ''run'')])] \<and>
   map (\<lambda>p. (fst p, map note_text (snd p))) cr_note_log =
     [(''2024-01-01'', [Some (''after'' @ [CR] @ ''run'')])]"
  using note_with_carriage_return_changes [of whole_number]
  by (simp add: whole_number_def is_digit_def digits_value_def digit_value_def)

end
